theory Spec2Isabelle
  imports Main "HOL-Library.Char_ord" "HOL-Library.List_Lexorder" "HOL-Library.Product_Lexorder"
begin

section \<open>The SQLite task-record store of ipyparallel (controller/sqlitedb.py)\<close>

text \<open>
  The development follows the source file top down: the operator tables, the adapters and
  converters, the schema check and the table-renaming loop of \<open>_init_db\<close>, the
  translation of search dictionaries into SQL text, and the record operations.

  Python objects that reach the translator are values of \<open>pyval\<close>; a dictionary is an
  association list in insertion order. Exceptions are values of \<open>error\<close>, and a function
  that can raise returns \<open>error + 'a\<close>.
\<close>

subsection \<open>Python values and exceptions\<close>

type_synonym bytes = "char list"

datatype pyval =
    PNone
  | PInt int
  | PStr string
  | PBytes bytes
  | PMemoryview bytes
  | PList "pyval list"
  | PTuple "pyval list"
  | PDict "(string \<times> pyval) list"

datatype error =
    KeyError
  | ValueError
  | TypeError
  | IndexError
  | UnboundLocalError
  | UnpicklingError
  | IntegrityError
  | OperationalError

text \<open>\<open>sep.join(parts)\<close> of Python strings.\<close>

fun join :: "string \<Rightarrow> string list \<Rightarrow> string" where
  "join sep [] = []"
| "join sep [x] = x"
| "join sep (x # y # ys) = x @ sep @ join sep (y # ys)"

subsection \<open>Operators\<close>

text \<open>
  An entry of the \<open>operators\<close> table is either a plain SQL operator or, for \<open>$in\<close> and
  \<open>$nin\<close>, a pair of an operator and the text that joins the expanded tests.
\<close>

datatype operator = Plain string | Joined string string

definition operators :: "(string \<times> operator) list" where
  "operators =
    [(''$lt'', Plain ''<''),
     (''$gt'', Plain ''>''),
     (''$eq'', Plain ''=''),
     (''$ne'', Plain ''!=''),
     (''$lte'', Plain ''<=''),
     (''$gte'', Plain ''>=''),
     (''$in'', Joined ''='' '' OR ''),
     (''$nin'', Joined ''!='' '' AND '')]"

definition null_operators :: "(string \<times> string) list" where
  "null_operators = [(''='', ''IS NULL''), (''!='', ''IS NOT NULL'')]"

subsection \<open>The column catalogue\<close>

definition keys_list :: "string list" where
  "keys_list =
    [''msg_id'', ''header'', ''metadata'', ''content'', ''buffers'', ''submitted'',
     ''client_uuid'', ''engine_uuid'', ''started'', ''completed'', ''resubmitted'',
     ''received'', ''result_header'', ''result_metadata'', ''result_content'',
     ''result_buffers'', ''queue'', ''execute_input'', ''execute_result'', ''error'',
     ''stdout'', ''stderr'']"

definition types_dict :: "(string \<times> string) list" where
  "types_dict =
    [(''msg_id'', ''text''),
     (''header'', ''dict text''),
     (''metadata'', ''dict text''),
     (''content'', ''dict text''),
     (''buffers'', ''bufs blob''),
     (''submitted'', ''timestamp''),
     (''client_uuid'', ''text''),
     (''engine_uuid'', ''text''),
     (''started'', ''timestamp''),
     (''completed'', ''timestamp''),
     (''resubmitted'', ''text''),
     (''received'', ''timestamp''),
     (''result_header'', ''dict text''),
     (''result_metadata'', ''dict text''),
     (''result_content'', ''dict text''),
     (''result_buffers'', ''bufs blob''),
     (''queue'', ''text''),
     (''execute_input'', ''text''),
     (''execute_result'', ''text''),
     (''error'', ''text''),
     (''stdout'', ''text''),
     (''stderr'', ''text'')]"

subsection \<open>Adapters and converters for buffer lists\<close>

text \<open>
  \<open>pickle.dumps\<close> and \<open>pickle.loads\<close> are library functions: they are parameters
  \<open>dumps\<close> and \<open>loads\<close> of the adapter and of the converter. \<open>sqlite3.Binary\<close> is
  \<open>memoryview\<close>.
\<close>

text \<open>The truth value of a Python object.\<close>

fun truthy :: "pyval \<Rightarrow> bool" where
  "truthy PNone = False"
| "truthy (PInt i) = (i \<noteq> 0)"
| "truthy (PStr s) = (s \<noteq> [])"
| "truthy (PBytes b) = (b \<noteq> [])"
| "truthy (PMemoryview b) = (b \<noteq> [])"
| "truthy (PList xs) = (xs \<noteq> [])"
| "truthy (PTuple xs) = (xs \<noteq> [])"
| "truthy (PDict d) = (d \<noteq> [])"

text \<open>\<open>bufs[0]\<close>: a dictionary has string keys only, so the key \<open>0\<close> is missing.\<close>

fun getitem0 :: "pyval \<Rightarrow> error + pyval" where
  "getitem0 (PList xs) = (case xs of [] \<Rightarrow> Inl IndexError | x # _ \<Rightarrow> Inr x)"
| "getitem0 (PTuple xs) = (case xs of [] \<Rightarrow> Inl IndexError | x # _ \<Rightarrow> Inr x)"
| "getitem0 (PStr s) = (case s of [] \<Rightarrow> Inl IndexError | c # _ \<Rightarrow> Inr (PStr [c]))"
| "getitem0 (PBytes b) = (case b of [] \<Rightarrow> Inl IndexError | c # _ \<Rightarrow> Inr (PInt (of_char c)))"
| "getitem0 (PMemoryview b) = (case b of [] \<Rightarrow> Inl IndexError | c # _ \<Rightarrow> Inr (PInt (of_char c)))"
| "getitem0 (PDict d) = Inl KeyError"
| "getitem0 _ = Inl TypeError"

text \<open>\<open>isinstance(x, (bytes, memoryview))\<close> and \<open>memoryview(buf).tobytes()\<close>.\<close>

fun is_bytes_like :: "pyval \<Rightarrow> bool" where
  "is_bytes_like (PBytes b) = True"
| "is_bytes_like (PMemoryview b) = True"
| "is_bytes_like _ = False"

fun tobytes :: "pyval \<Rightarrow> error + bytes" where
  "tobytes (PBytes b) = Inr b"
| "tobytes (PMemoryview b) = Inr b"
| "tobytes _ = Inl TypeError"

text \<open>The list comprehension \<open>[memoryview(buf).tobytes() for buf in bufs]\<close>.\<close>

fun tobytes_all :: "pyval list \<Rightarrow> error + bytes list" where
  "tobytes_all [] = Inr []"
| "tobytes_all (buf # rest) =
    (case tobytes buf of
       Inl e \<Rightarrow> Inl e
     | Inr b \<Rightarrow> (case tobytes_all rest of Inl e \<Rightarrow> Inl e | Inr bs \<Rightarrow> Inr (b # bs)))"

definition adapt_bufs :: "(pyval \<Rightarrow> bytes) \<Rightarrow> pyval \<Rightarrow> error + pyval" where
  "adapt_bufs dumps bufs =
    (if truthy bufs then
       (case getitem0 bufs of
          Inl e \<Rightarrow> Inl e
        | Inr first \<Rightarrow>
            if is_bytes_like first then
              (case tobytes_all (case bufs of PList xs \<Rightarrow> xs | PTuple xs \<Rightarrow> xs | _ \<Rightarrow> []) of
                 Inl e \<Rightarrow> Inl e
               | Inr bs \<Rightarrow> Inr (PMemoryview (dumps (PList (map PBytes bs)))))
            else Inr bufs)
     else Inr PNone)"

text \<open>
  \<open>_convert_bufs\<close>. The engine hands a converter a bytes object; \<open>bytes(bs)\<close> of a
  bytes-like object is its content, and any other argument is taken to raise.
\<close>

definition convert_bufs :: "(bytes \<Rightarrow> error + pyval) \<Rightarrow> pyval \<Rightarrow> error + pyval" where
  "convert_bufs loads bs =
    (if bs = PNone then Inr (PList [])
     else (case tobytes bs of Inl e \<Rightarrow> Inl e | Inr b \<Rightarrow> loads b))"

text \<open>The content of a byte block, whether a \<open>bytes\<close> object or a \<open>memoryview\<close>.\<close>

fun block_bytes :: "pyval \<Rightarrow> bytes" where
  "block_bytes (PBytes b) = b"
| "block_bytes (PMemoryview b) = b"
| "block_bytes _ = []"

text \<open>
  A serialiser with the contract of pickle on lists of byte strings, to show that the
  contract can be met: every byte of a block is written after a byte 1, and a byte 0 ends
  the block.
\<close>

fun frame_block :: "bytes \<Rightarrow> bytes" where
  "frame_block [] = [CHR 0x00]"
| "frame_block (c # cs) = CHR 0x01 # c # frame_block cs"

fun frame_dumps :: "pyval \<Rightarrow> bytes" where
  "frame_dumps (PList xs) = concat (map (\<lambda>x. case x of PBytes b \<Rightarrow> frame_block b | _ \<Rightarrow> []) xs)"
| "frame_dumps _ = []"

fun unframe :: "bytes \<Rightarrow> bytes \<Rightarrow> bytes list option" where
  "unframe cur [] = (if cur = [] then Some [] else None)"
| "unframe cur [t] = (if t = CHR 0x00 then Some [cur] else None)"
| "unframe cur (t # c # rest) =
     (if t = CHR 0x00 then map_option ((#) cur) (unframe [] (c # rest))
      else unframe (cur @ [c]) rest)"

definition frame_loads :: "bytes \<Rightarrow> error + pyval" where
  "frame_loads b = (case unframe [] b of None \<Rightarrow> Inl UnpicklingError
                    | Some bs \<Rightarrow> Inr (PList (map PBytes bs)))"

subsection \<open>Rendering a search dictionary (\<open>_render_expression\<close>)\<close>

text \<open>
  The locals of \<open>_render_expression\<close> that live across loop iterations: the list of
  rendered expressions, the bound arguments, and \<open>join\<close>, which is assigned only when an
  operator of the table is a pair and is unbound (\<open>None\<close>) before that.
\<close>

record render_state =
  expressions :: "string list"
  args :: "pyval list"
  join_var :: "string option"

text \<open>The body of the inner loop, for one \<open>test, value\<close> item of a sub-dictionary.\<close>

definition render_test :: "string \<Rightarrow> string \<Rightarrow> pyval \<Rightarrow> render_state \<Rightarrow> error + render_state" where
  "render_test name test val st =
    (case map_of operators test of
       None \<Rightarrow> Inl KeyError
     | Some entry \<Rightarrow>
        (let (op, jn) = (case entry of
                           Plain s \<Rightarrow> (s, join_var st)
                         | Joined s j \<Rightarrow> (s, Some j))
         in
           if val = PNone \<and> op \<in> set (map fst null_operators) then
             (case map_of null_operators op of
                None \<Rightarrow> Inl KeyError
              | Some nop \<Rightarrow>
                  Inr (st\<lparr>expressions := expressions st @ [name @ '' '' @ nop],
                          join_var := jn\<rparr>))
           else
             (let expr = name @ '' '' @ op @ '' ?'';
                  seq = (case val of PList vs \<Rightarrow> Some vs | PTuple vs \<Rightarrow> Some vs | _ \<Rightarrow> None)
              in case seq of
                   Some vs \<Rightarrow>
                     if op \<in> set (map fst null_operators) \<and> PNone \<in> set vs then Inl ValueError
                     else
                       (case jn of
                          None \<Rightarrow> Inl UnboundLocalError
                        | Some j \<Rightarrow>
                            Inr (st\<lparr>expressions := expressions st @
                                       [''( '' @ join j (replicate (length vs) expr) @ '' )''],
                                    args := args st @ vs,
                                    join_var := jn\<rparr>))
                 | None \<Rightarrow>
                     Inr (st\<lparr>expressions := expressions st @ [expr],
                             args := args st @ [val],
                             join_var := jn\<rparr>))))"

text \<open>The inner loop \<open>for test, value in sub_check.items()\<close>.\<close>

fun render_tests :: "string \<Rightarrow> (string \<times> pyval) list \<Rightarrow> render_state \<Rightarrow> error + render_state" where
  "render_tests name [] st = Inr st"
| "render_tests name ((test, val) # rest) st =
    (case render_test name test val st of
       Inl e \<Rightarrow> Inl e
     | Inr st' \<Rightarrow> render_tests name rest st')"

text \<open>The outer loop \<open>for name, sub_check in check.items()\<close>.\<close>

fun render_items :: "(string \<times> pyval) list \<Rightarrow> render_state \<Rightarrow> error + render_state" where
  "render_items [] st = Inr st"
| "render_items ((name, sub_check) # rest) st =
    (case sub_check of
       PDict sub \<Rightarrow>
         (case render_tests name sub st of
            Inl e \<Rightarrow> Inl e
          | Inr st' \<Rightarrow> render_items rest st')
     | PNone \<Rightarrow> render_items rest (st\<lparr>expressions := expressions st @ [name @ '' IS NULL'']\<rparr>)
     | _ \<Rightarrow> render_items rest (st\<lparr>expressions := expressions st @ [name @ '' = ?''],
                                  args := args st @ [sub_check]\<rparr>))"

text \<open>
  The keys of the search dictionary that survive both \<open>difference_update\<close> calls: first
  the catalogue is removed, then the two buffer columns.
\<close>

definition illegal_keys :: "(string \<times> pyval) list \<Rightarrow> string list" where
  "illegal_keys check =
     filter (\<lambda>k. k \<notin> {''buffers'', ''result_buffers''})
       (filter (\<lambda>k. k \<notin> set keys_list) (map fst check))"

definition render_expression :: "(string \<times> pyval) list \<Rightarrow> error + (string \<times> pyval list)" where
  "render_expression check =
    (if illegal_keys check \<noteq> [] then Inl KeyError
     else
       (case render_items check \<lparr>expressions = [], args = [], join_var = None\<rparr> of
          Inl e \<Rightarrow> Inl e
        | Inr st \<Rightarrow> Inr (join '' AND '' (expressions st), args st)))"

subsection \<open>Dictionaries in insertion order\<close>

text \<open>
  \<open>d[k] = v\<close> on a Python dictionary: an existing key keeps its position, a new key is
  appended.
\<close>

fun dict_set :: "(string \<times> 'v) list \<Rightarrow> string \<Rightarrow> 'v \<Rightarrow> (string \<times> 'v) list" where
  "dict_set [] k v = [(k, v)]"
| "dict_set ((k', v') # d) k v = (if k' = k then (k, v) # d else (k', v') # dict_set d k v)"

definition dict_update :: "(string \<times> 'v) list \<Rightarrow> (string \<times> 'v) list \<Rightarrow> (string \<times> 'v) list" where
  "dict_update d other = fold (\<lambda>(k, v) acc. dict_set acc k v) other d"

subsection \<open>The storage engine\<close>

text \<open>
  What the engine stores in a cell, after the adapters of the driver have run: \<open>NULL\<close>, an
  integer, text or a blob. A table is what \<open>PRAGMA table_info\<close> reports of it (the name and
  the declared type of each column, in order) together with its rows. Every table carries
  the primary key of the \<open>CREATE TABLE\<close> statement of \<open>_init_db\<close> on its first column,
  \<open>msg_id\<close>. The database file is a finite map from table names to tables.

  The \<open>store\<close> record holds the fields of the \<open>SQLiteDB\<close> object that the operations
  read or write: the table name, the connection (the database seen through it) and, to
  make the calls on the connection observable, the texts of the statements passed to
  \<open>_db.execute\<close>, in order.
\<close>

datatype sqlval = SNull | SInt int | SText string | SBlob bytes

type_synonym row = "sqlval list"

record tbl =
  columns :: "(string \<times> string) list"
  rows :: "row list"

type_synonym database = "string \<Rightarrow> tbl option"

record store =
  table :: string
  db :: database
  executed :: "string list"

definition quoted :: "string \<Rightarrow> string" where
  "quoted s = [CHR 0x27] @ s @ [CHR 0x27]"

definition execute :: "store \<Rightarrow> string \<Rightarrow> store" where
  "execute self query = self\<lparr>executed := executed self @ [query]\<rparr>"

definition msg_id_of :: "row \<Rightarrow> sqlval" where
  "msg_id_of r = (case r of [] \<Rightarrow> SNull | c # _ \<Rightarrow> c)"

definition column_names :: "tbl \<Rightarrow> string list" where
  "column_names t = map fst (columns t)"

definition cell :: "tbl \<Rightarrow> string \<Rightarrow> row \<Rightarrow> sqlval" where
  "cell t name r = (case map_of (zip (column_names t) r) name of None \<Rightarrow> SNull | Some c \<Rightarrow> c)"

text \<open>
  The primary key: a row whose \<open>msg_id\<close> is not \<open>NULL\<close> conflicts with a stored row of
  the same \<open>msg_id\<close>.
\<close>

definition pk_conflict :: "row list \<Rightarrow> row \<Rightarrow> bool" where
  "pk_conflict rs line = (msg_id_of line \<noteq> SNull \<and> msg_id_of line \<in> set (map msg_id_of rs))"

definition pk_unique :: "row list \<Rightarrow> bool" where
  "pk_unique rs = distinct (filter (\<lambda>c. c \<noteq> SNull) (map msg_id_of rs))"

text \<open>
  The order of \<open>ORDER BY\<close> on stored values: \<open>NULL\<close> first, then integers by value, then
  text byte by byte, then blobs byte by byte.
\<close>

definition order_key :: "sqlval \<Rightarrow> nat \<times> int \<times> string" where
  "order_key c = (case c of
      SNull \<Rightarrow> (0, 0, [])
    | SInt i \<Rightarrow> (1, i, [])
    | SText s \<Rightarrow> (2, 0, s)
    | SBlob b \<Rightarrow> (3, 0, b))"

text \<open>
  How the engine reads a \<open>WHERE\<close> clause is not part of this program: the meaning of the
  clause text with its bound arguments is a parameter \<open>W\<close> of the operations that
  use one. It yields an error (a clause the engine refuses) or a predicate on rows.
\<close>

type_synonym where_sem = "string \<Rightarrow> pyval list \<Rightarrow> error + (row \<Rightarrow> bool)"

definition engine_insert :: "store \<Rightarrow> row \<Rightarrow> error + store" where
  "engine_insert self line =
    (case db self (table self) of
       None \<Rightarrow> Inl OperationalError
     | Some t \<Rightarrow>
         if length line \<noteq> length (columns t) then Inl OperationalError
         else if pk_conflict (rows t) line then Inl IntegrityError
         else Inr (self\<lparr>db := (db self)(table self \<mapsto> t\<lparr>rows := rows t @ [line]\<rparr>)\<rparr>))"

definition assign :: "tbl \<Rightarrow> (string \<times> sqlval) list \<Rightarrow> row \<Rightarrow> row" where
  "assign t sets r =
     map (\<lambda>(name, c). case map_of sets name of None \<Rightarrow> c | Some v \<Rightarrow> v) (zip (column_names t) r)"

text \<open>
  \<open>UPDATE t SET k1 = ?, ... WHERE msg_id == ?\<close>. An empty list of assignments is a
  syntax error, an assignment to a name that is not a column is refused, and so is an
  update that would break the primary key.
\<close>

definition engine_update :: "store \<Rightarrow> (string \<times> sqlval) list \<Rightarrow> sqlval \<Rightarrow> error + store" where
  "engine_update self sets ident =
    (case db self (table self) of
       None \<Rightarrow> Inl OperationalError
     | Some t \<Rightarrow>
         if sets = [] then Inl OperationalError
         else if \<not> set (map fst sets) \<subseteq> set (column_names t) then Inl OperationalError
         else
           (let rows' = map (\<lambda>r. if ident \<noteq> SNull \<and> msg_id_of r = ident then assign t sets r else r)
                          (rows t)
            in if pk_unique (rows t) \<and> \<not> pk_unique rows' then Inl IntegrityError
               else Inr (self\<lparr>db := (db self)(table self \<mapsto> t\<lparr>rows := rows'\<rparr>)\<rparr>)))"

definition engine_delete :: "store \<Rightarrow> (row \<Rightarrow> bool) \<Rightarrow> error + store" where
  "engine_delete self p =
    (case db self (table self) of
       None \<Rightarrow> Inl OperationalError
     | Some t \<Rightarrow> Inr (self\<lparr>db := (db self)(table self \<mapsto> t\<lparr>rows := filter (\<lambda>r. \<not> p r) (rows t)\<rparr>)\<rparr>))"

text \<open>
  \<open>SELECT cols FROM t WHERE ...\<close>: the rows that satisfy the predicate, in table order,
  each cut down to the requested columns (\<open>None\<close> stands for \<open>*\<close>).
\<close>

definition engine_select :: "store \<Rightarrow> string list option \<Rightarrow> (row \<Rightarrow> bool) \<Rightarrow> error + row list" where
  "engine_select self cols p =
    (case db self (table self) of
       None \<Rightarrow> Inl OperationalError
     | Some t \<Rightarrow>
        (case cols of
           None \<Rightarrow> Inr (filter p (rows t))
         | Some ks \<Rightarrow>
             if \<not> set ks \<subseteq> set (column_names t) then Inl OperationalError
             else Inr (map (\<lambda>r. map (\<lambda>k. cell t k r) ks) (filter p (rows t)))))"

subsection \<open>The schema check (\<open>_check_table\<close>)\<close>

text \<open>
  \<open>PRAGMA table_info\<close> returns one line per column of the table, or no line when there
  is no such table; of each line the code reads the name and the declared type.
\<close>

definition table_info :: "store \<Rightarrow> (string \<times> string) list" where
  "table_info self = (case db self (table self) of None \<Rightarrow> [] | Some t \<Rightarrow> columns t)"

text \<open>The loop \<open>for key in self._keys\<close> that compares the declared types.\<close>

fun check_types :: "(string \<times> string) list \<Rightarrow> string list \<Rightarrow> error + bool" where
  "check_types types [] = Inr True"
| "check_types types (key # rest) =
    (case map_of types key of
       None \<Rightarrow> Inl KeyError
     | Some ty \<Rightarrow>
        (case map_of types_dict key of
           None \<Rightarrow> Inl KeyError
         | Some expected \<Rightarrow> if ty \<noteq> expected then Inr False else check_types types rest))"

definition check_table :: "store \<Rightarrow> (error + bool) \<times> store" where
  "check_table self =
    (let self' = execute self (''PRAGMA table_info('' @ quoted (table self) @ '')'');
         lines = table_info self'
     in if lines = [] then (Inr True, self')
        else
          (let types = fold (\<lambda>(name, ty) d. dict_set d name ty) lines [];
               keys = map fst lines
           in if keys_list \<noteq> keys then (Inr False, self')
              else (check_types types keys_list, self')))"

subsection \<open>Connecting and choosing the table (\<open>_init_db\<close>)\<close>

text \<open>\<open>str(i)\<close> of a natural number: its decimal digits.\<close>

definition digit_char :: "nat \<Rightarrow> char" where
  "digit_char d = char_of (48 + d)"

fun str_nat :: "nat \<Rightarrow> string" where
  "str_nat n = (if n < 10 then [digit_char n] else str_nat (n div 10) @ [digit_char (n mod 10)])"

declare str_nat.simps [simp del]

text \<open>
  The loop \<open>while not self._check_table()\<close>, with the object, \<open>first_table\<close> and the
  counter \<open>i\<close> as its state. Nothing in the code bounds the number of rounds, so the loop
  is a partial function: \<open>None\<close> stands for a loop that does not end.
\<close>

partial_function (option) init_loop :: "store \<Rightarrow> string \<Rightarrow> nat \<Rightarrow> (error + store) option" where
  "init_loop self first_table i =
    (case check_table self of
       (Inl e, self') \<Rightarrow> Some (Inl e)
     | (Inr ok, self') \<Rightarrow>
         if ok then Some (Inr self')
         else init_loop (self'\<lparr>table := first_table @ ''_'' @ str_nat (Suc i)\<rparr>) first_table (Suc i))"

text \<open>
  The columns of the \<open>CREATE TABLE IF NOT EXISTS\<close> statement. The engine is taken to
  report the declared types as the statement writes them. The statement text is written
  here on one line.
\<close>

definition created_columns :: "(string \<times> string) list" where
  "created_columns =
    [(''msg_id'', ''text''),
     (''header'', ''dict text''),
     (''metadata'', ''dict text''),
     (''content'', ''dict text''),
     (''buffers'', ''bufs blob''),
     (''submitted'', ''timestamp''),
     (''client_uuid'', ''text''),
     (''engine_uuid'', ''text''),
     (''started'', ''timestamp''),
     (''completed'', ''timestamp''),
     (''resubmitted'', ''text''),
     (''received'', ''timestamp''),
     (''result_header'', ''dict text''),
     (''result_metadata'', ''dict text''),
     (''result_content'', ''dict text''),
     (''result_buffers'', ''bufs blob''),
     (''queue'', ''text''),
     (''execute_input'', ''text''),
     (''execute_result'', ''text''),
     (''error'', ''text''),
     (''stdout'', ''text''),
     (''stderr'', ''text'')]"

definition create_table :: "store \<Rightarrow> store" where
  "create_table self =
    (let self' = execute self
           (''CREATE TABLE IF NOT EXISTS '' @ quoted (table self) @ '' (msg_id text PRIMARY KEY, ''
              @ join '', '' (map (\<lambda>(name, ty). name @ '' '' @ ty) (tl created_columns)) @ '')'')
     in case db self' (table self') of
          None \<Rightarrow> self'\<lparr>db := (db self')(table self' \<mapsto> \<lparr>columns = created_columns, rows = []\<rparr>)\<rparr>
        | Some t \<Rightarrow> self')"

text \<open>
  \<open>_init_db\<close>, from the object as \<open>__init__\<close> has set it up: \<open>table\<close> is the requested
  name and \<open>db\<close> is the content of the database file at the time of the connection.
\<close>

definition init_db :: "store \<Rightarrow> (error + store) option" where
  "init_db self =
    (case init_loop self (table self) 0 of
       None \<Rightarrow> None
     | Some (Inl e) \<Rightarrow> Some (Inl e)
     | Some (Inr self') \<Rightarrow> Some (Inr (create_table self')))"

text \<open>
  The words of the specification for the schema manager: a table name is usable in a
  database when no table of that name is reported (a table without columns is reported
  like a missing one), or the table reported has exactly the expected column names and
  declared types. The candidate number \<open>i\<close> of a requested name
  is the name itself for \<open>i = 0\<close>, and the name with the suffix \<open>_i\<close> otherwise.
\<close>

definition usable :: "database \<Rightarrow> string \<Rightarrow> bool" where
  "usable d name = (case d name of None \<Rightarrow> True | Some t \<Rightarrow> columns t = [] \<or> columns t = types_dict)"

definition candidate :: "string \<Rightarrow> nat \<Rightarrow> string" where
  "candidate first_table i = (if i = 0 then first_table else first_table @ ''_'' @ str_nat i)"

text \<open>The value of a decimal numeral, to tell the suffixes apart.\<close>

definition parse_nat :: "string \<Rightarrow> nat" where
  "parse_nat s = foldl (\<lambda>a c. 10 * a + (of_char c - 48)) 0 s"

text \<open>A table that is not of the expected shape, and a database file that holds it
  under the requested name and under its first \<open>n\<close> suffixed names.\<close>

definition drifted_table :: tbl where
  "drifted_table = \<lparr>columns = [(''msg_id'', ''text''), (''header'', ''text'')],
                    rows = [[SText ''old'', SText ''h'']]\<rparr>"

definition drifted_db :: "string \<Rightarrow> nat \<Rightarrow> database" where
  "drifted_db first_table n name =
     (if name \<in> candidate first_table ` {..n} then Some drifted_table else None)"

definition drifted_store :: "string \<Rightarrow> nat \<Rightarrow> store" where
  "drifted_store first_table n =
     \<lparr>table = first_table, db = drifted_db first_table n, executed = []\<rparr>"

subsection \<open>Timestamps (\<open>_adapt_timestamp\<close>)\<close>

text \<open>
  A \<open>datetime\<close> object: its calendar fields, and the offset of its time zone from UTC in
  minutes, \<open>None\<close> for a naive object.
\<close>

record datetime =
  year :: nat
  month :: nat
  day :: nat
  hour :: nat
  minute :: nat
  second :: nat
  microsecond :: nat
  utcoffset :: "int option"

text \<open>The format \<open>%0wd\<close>, and \<open>datetime.isoformat()\<close> of the standard library.\<close>

definition zero_pad :: "nat \<Rightarrow> nat \<Rightarrow> string" where
  "zero_pad w n = replicate (w - length (str_nat n)) (CHR ''0'') @ str_nat n"

definition isoformat :: "datetime \<Rightarrow> string" where
  "isoformat dt =
     zero_pad 4 (year dt) @ ''-'' @ zero_pad 2 (month dt) @ ''-'' @ zero_pad 2 (day dt) @ ''T''
     @ zero_pad 2 (hour dt) @ '':'' @ zero_pad 2 (minute dt) @ '':'' @ zero_pad 2 (second dt)
     @ (if microsecond dt = 0 then [] else ''.'' @ zero_pad 6 (microsecond dt))
     @ (case utcoffset dt of
          None \<Rightarrow> []
        | Some off \<Rightarrow>
            (if off < 0 then ''-'' else ''+'')
            @ zero_pad 2 (nat \<bar>off\<bar> div 60) @ '':'' @ zero_pad 2 (nat \<bar>off\<bar> mod 60))"

text \<open>
  Modelled from the spec: \<open>ensure_timezone\<close> is imported from \<open>ipyparallel/util.py\<close>,
  which is not among the sources. The specification says that a naive instant first gets
  a default (local) time zone; the offset of that zone is the parameter \<open>local\<close>. An
  object that has a time zone is returned as it is.
\<close>

definition ensure_timezone :: "int \<Rightarrow> datetime \<Rightarrow> datetime" where
  "ensure_timezone local dt =
     (case utcoffset dt of None \<Rightarrow> dt\<lparr>utcoffset := Some local\<rparr> | Some off \<Rightarrow> dt)"

definition adapt_timestamp :: "int \<Rightarrow> datetime \<Rightarrow> string" where
  "adapt_timestamp local dt = isoformat (ensure_timezone local dt)"

text \<open>
  The point in time of an object with a time zone, in microseconds, as the standard
  library compares such objects: the proleptic Gregorian ordinal of the date, the time of
  day, and the offset subtracted.
\<close>

definition is_leap :: "nat \<Rightarrow> bool" where
  "is_leap y = (if y mod 100 = 0 then y mod 400 = 0 else y mod 4 = 0)"

definition days_before_year :: "nat \<Rightarrow> int" where
  "days_before_year y =
     (let y' = int y - 1 in y' * 365 + y' div 4 - y' div 100 + y' div 400)"

definition days_before_month :: "nat \<Rightarrow> nat \<Rightarrow> int" where
  "days_before_month y m =
     int (sum_list (take (m - 1) [31, 28, 31, 30, 31, 30, 31, 31, 30, 31, 30, 31]))
     + (if 2 < m \<and> is_leap y then 1 else 0)"

definition ymd2ord :: "nat \<Rightarrow> nat \<Rightarrow> nat \<Rightarrow> int" where
  "ymd2ord y m d = days_before_year y + days_before_month y m + int d"

definition utc_microseconds :: "datetime \<Rightarrow> int" where
  "utc_microseconds dt =
     (((ymd2ord (year dt) (month dt) (day dt) * 24 + int (hour dt)) * 60 + int (minute dt)
         - (case utcoffset dt of None \<Rightarrow> 0 | Some off \<Rightarrow> off)) * 60 + int (second dt)) * 1000000
     + int (microsecond dt)"

text \<open>Two submission times in different time zones: ten o'clock at UTC+5 and six o'clock
  at UTC, on the same day.\<close>

definition stamp_a :: datetime where
  "stamp_a = \<lparr>year = 2020, month = 1, day = 1, hour = 10, minute = 0, second = 0,
              microsecond = 0, utcoffset = Some 300\<rparr>"

definition stamp_b :: datetime where
  "stamp_b = \<lparr>year = 2020, month = 1, day = 1, hour = 6, minute = 0, second = 0,
              microsecond = 0, utcoffset = Some 0\<rparr>"

subsection \<open>Records as dictionaries and as rows\<close>

definition defaults :: "string list option \<Rightarrow> (string \<times> sqlval) list" where
  "defaults keys =
     fold (\<lambda>key d. dict_set d key SNull) (case keys of None \<Rightarrow> keys_list | Some ks \<Rightarrow> ks) []"

fun lookup_all :: "(string \<times> 'v) list \<Rightarrow> string list \<Rightarrow> error + 'v list" where
  "lookup_all d [] = Inr []"
| "lookup_all d (key # rest) =
    (case map_of d key of
       None \<Rightarrow> Inl KeyError
     | Some v \<Rightarrow> (case lookup_all d rest of Inl e \<Rightarrow> Inl e | Inr vs \<Rightarrow> Inr (v # vs)))"

definition dict_to_list :: "(string \<times> sqlval) list \<Rightarrow> error + row" where
  "dict_to_list d = lookup_all d keys_list"

definition list_to_dict :: "row \<Rightarrow> string list option \<Rightarrow> (string \<times> sqlval) list" where
  "list_to_dict line keys =
    (let ks = (case keys of None \<Rightarrow> keys_list | Some ks \<Rightarrow> ks)
     in fold (\<lambda>(key, v) d. dict_set d key v) (zip ks line) (defaults (Some ks)))"

subsection \<open>The record operations\<close>

definition add_record :: "store \<Rightarrow> string \<Rightarrow> (string \<times> sqlval) list \<Rightarrow> (error + unit) \<times> store" where
  "add_record self msg_id rec =
    (let d = dict_set (dict_update (defaults None) rec) ''msg_id'' (SText msg_id)
     in case dict_to_list d of
          Inl e \<Rightarrow> (Inl e, self)
        | Inr line \<Rightarrow>
           (let tups = ''('' @ join '','' (replicate (length line) ''?'') @ '')'';
                self' = execute self (''INSERT INTO '' @ quoted (table self) @ '' VALUES '' @ tups)
            in case engine_insert self' line of
                 Inl e \<Rightarrow> (Inl e, self')
               | Inr self'' \<Rightarrow> (Inr (), self'')))"

definition get_record :: "store \<Rightarrow> string \<Rightarrow> (error + (string \<times> sqlval) list) \<times> store" where
  "get_record self msg_id =
    (let self' = execute self (''SELECT * FROM '' @ quoted (table self) @ '' WHERE msg_id==?'')
     in case engine_select self' None (\<lambda>r. msg_id_of r = SText msg_id) of
          Inl e \<Rightarrow> (Inl e, self')
        | Inr [] \<Rightarrow> (Inl KeyError, self')
        | Inr (line # _) \<Rightarrow> (Inr (list_to_dict line None), self'))"

definition update_record :: "store \<Rightarrow> string \<Rightarrow> (string \<times> sqlval) list \<Rightarrow> (error + unit) \<times> store" where
  "update_record self msg_id rec =
    (let keys = sort (map fst rec);
         sets = map (\<lambda>key. key @ '' = ?'') keys
     in case lookup_all rec keys of
          Inl e \<Rightarrow> (Inl e, self)
        | Inr vals \<Rightarrow>
           (let query = ''UPDATE '' @ quoted (table self) @ '' SET '' @ join '', '' sets
                          @ '' WHERE msg_id == ?'';
                self' = execute self query
            in case engine_update self' (zip keys vals) (SText msg_id) of
                 Inl e \<Rightarrow> (Inl e, self')
               | Inr self'' \<Rightarrow> (Inr (), self'')))"

definition drop_record :: "store \<Rightarrow> string \<Rightarrow> (error + unit) \<times> store" where
  "drop_record self msg_id =
    (let self' = execute self (''DELETE FROM '' @ quoted (table self) @ '' WHERE msg_id==?'')
     in case engine_delete self' (\<lambda>r. msg_id_of r = SText msg_id) of
          Inl e \<Rightarrow> (Inl e, self')
        | Inr self'' \<Rightarrow> (Inr (), self''))"

definition drop_matching_records :: "where_sem \<Rightarrow> store \<Rightarrow> (string \<times> pyval) list \<Rightarrow> (error + unit) \<times> store" where
  "drop_matching_records W self check =
    (case render_expression check of
       Inl e \<Rightarrow> (Inl e, self)
     | Inr (expr, argv) \<Rightarrow>
        (let self' = execute self (''DELETE FROM '' @ quoted (table self) @ '' WHERE '' @ expr)
         in case W expr argv of
              Inl e \<Rightarrow> (Inl e, self')
            | Inr p \<Rightarrow>
               (case engine_delete self' p of
                  Inl e \<Rightarrow> (Inl e, self')
                | Inr self'' \<Rightarrow> (Inr (), self''))))"

text \<open>
  \<open>find_records\<close>. A list of keys is truthy when it is not empty. The list is changed in
  place: \<open>msg_id\<close> is removed where it first occurs and inserted in front.
\<close>

definition find_records ::
  "where_sem \<Rightarrow> store \<Rightarrow> (string \<times> pyval) list \<Rightarrow> string list option
     \<Rightarrow> (error + (string \<times> sqlval) list list) \<times> store" where
  "find_records W self check keys =
    (let given = (case keys of None \<Rightarrow> False | Some ks \<Rightarrow> ks \<noteq> []);
         bad_keys = (case keys of None \<Rightarrow> [] | Some ks \<Rightarrow> filter (\<lambda>key. key \<notin> set keys_list) ks)
     in if given \<and> bad_keys \<noteq> [] then (Inl KeyError, self)
        else
         (let keys' = (if given then map_option (\<lambda>ks. ''msg_id'' # remove1 ''msg_id'' ks) keys
                       else keys);
              req = (if given then join '', '' (case keys' of None \<Rightarrow> [] | Some ks \<Rightarrow> ks)
                     else ''*'')
          in case render_expression check of
               Inl e \<Rightarrow> (Inl e, self)
             | Inr (expr, argv) \<Rightarrow>
                (let query = ''SELECT '' @ req @ '' FROM '' @ quoted (table self) @ '' WHERE '' @ expr;
                     self' = execute self query
                 in case W expr argv of
                      Inl e \<Rightarrow> (Inl e, self')
                    | Inr p \<Rightarrow>
                       (case engine_select self' (if given then keys' else None) p of
                          Inl e \<Rightarrow> (Inl e, self')
                        | Inr matches \<Rightarrow>
                            (Inr (map (\<lambda>line. list_to_dict line keys') matches), self')))))"

definition get_history :: "store \<Rightarrow> (error + sqlval list) \<times> store" where
  "get_history self =
    (let self' = execute self
                   (''SELECT msg_id FROM '' @ quoted (table self) @ '' ORDER by submitted ASC'')
     in case db self' (table self') of
          None \<Rightarrow> (Inl OperationalError, self')
        | Some t \<Rightarrow>
            if ''msg_id'' \<in> set (column_names t) \<and> ''submitted'' \<in> set (column_names t)
            then (Inr (map (cell t ''msg_id'')
                        (sort_key (\<lambda>r. order_key (cell t ''submitted'' r)) (rows t))), self')
            else (Inl OperationalError, self'))"

subsection \<open>Invalid search dictionaries and projections\<close>

text \<open>
  The inputs that filter validation is to refuse, as predicates on the input: a key of the
  search dictionary outside the catalogue, a test of a sub-dictionary that is not in the
  \<open>operators\<close> table, a \<open>None\<close> element in the list of a \<open>$in\<close> or \<open>$nin\<close> test,
  and a requested key outside the catalogue. \<open>bad_test\<close> and \<open>bad_item\<close> collect the
  items on which the translator stops. The validation errors are the two exceptions that
  the code raises on purpose, \<open>KeyError\<close> and \<open>ValueError\<close>. \<open>plain_list_operand\<close>
  holds of a search dictionary in which a list or a tuple stands under one of the six
  plain comparison operators: there the code reads the local \<open>join\<close>, which only
  \<open>$in\<close> and \<open>$nin\<close> assign.
\<close>


definition bad_test :: "string \<times> pyval \<Rightarrow> bool" where
  "bad_test item = (case item of (test, v) \<Rightarrow>
      map_of operators test = None
      \<or> (test \<in> {''$in'', ''$nin''} \<and>
           (case v of PList vs \<Rightarrow> PNone \<in> set vs | PTuple vs \<Rightarrow> PNone \<in> set vs | _ \<Rightarrow> False)))"

definition unknown_field :: "(string \<times> pyval) list \<Rightarrow> bool" where
  "unknown_field check = list_ex (\<lambda>(name, sub_check). name \<notin> set keys_list) check"

definition unknown_operator :: "(string \<times> pyval) list \<Rightarrow> bool" where
  "unknown_operator check =
     list_ex (\<lambda>(name, sub_check).
        case sub_check of
          PDict sub \<Rightarrow> list_ex (\<lambda>(test, v). map_of operators test = None) sub
        | _ \<Rightarrow> False) check"

definition null_element_in_membership :: "(string \<times> pyval) list \<Rightarrow> bool" where
  "null_element_in_membership check =
     list_ex (\<lambda>(name, sub_check).
        case sub_check of
          PDict sub \<Rightarrow>
            list_ex (\<lambda>(test, v). test \<in> {''$in'', ''$nin''} \<and>
               (case v of PList vs \<Rightarrow> PNone \<in> set vs | PTuple vs \<Rightarrow> PNone \<in> set vs | _ \<Rightarrow> False)) sub
        | _ \<Rightarrow> False) check"

definition unknown_projection :: "string list option \<Rightarrow> bool" where
  "unknown_projection keys =
     (case keys of None \<Rightarrow> False | Some ks \<Rightarrow> list_ex (\<lambda>key. key \<notin> set keys_list) ks)"

definition validation_error :: "error \<Rightarrow> bool" where
  "validation_error e = (e = KeyError \<or> e = ValueError)"

definition plain_list_test :: "string \<times> pyval \<Rightarrow> bool" where
  "plain_list_test item = (case item of (test, v) \<Rightarrow>
      (case map_of operators test of
         Some (Plain s) \<Rightarrow> (case v of PList vs \<Rightarrow> True | PTuple vs \<Rightarrow> True | _ \<Rightarrow> False)
       | _ \<Rightarrow> False))"

definition plain_list_operand :: "(string \<times> pyval) list \<Rightarrow> bool" where
  "plain_list_operand check =
     list_ex (\<lambda>(name, sub_check).
        case sub_check of PDict sub \<Rightarrow> list_ex plain_list_test sub | _ \<Rightarrow> False) check"


definition bad_item :: "string \<times> pyval \<Rightarrow> bool" where
  "bad_item item = (case item of (name, sub_check) \<Rightarrow>
      (case sub_check of PDict sub \<Rightarrow> list_ex bad_test sub | _ \<Rightarrow> False))"

subsection \<open>A concrete store\<close>

text \<open>
  A store bound to a table \<open>tasks\<close> of the expected shape that holds the given rows, and a
  row that has only its \<open>msg_id\<close> set. They serve as concrete inputs.
\<close>

definition empty_row :: "string \<Rightarrow> row" where
  "empty_row ident = SText ident # replicate 21 SNull"

definition example_store :: "row list \<Rightarrow> store" where
  "example_store rs =
     \<lparr>table = ''tasks'',
      db = [''tasks'' \<mapsto> \<lparr>columns = types_dict, rows = rs\<rparr>],
      executed = []\<rparr>"

section \<open>Verified properties\<close>

subsection \<open>Helper facts about the translator\<close>

lemma render_test_in:
  "render_test f ''$in'' (PList v) st =
     (if PNone \<in> set v then Inl ValueError
      else Inr (st\<lparr>expressions := expressions st @
                     [''( '' @ join '' OR '' (replicate (length v) (f @ '' = ?'')) @ '' )''],
                   args := args st @ v, join_var := Some '' OR ''\<rparr>))"
  by (simp add: render_test_def operators_def null_operators_def)

lemma render_test_nin:
  "render_test f ''$nin'' (PList v) st =
     (if PNone \<in> set v then Inl ValueError
      else Inr (st\<lparr>expressions := expressions st @
                     [''( '' @ join '' AND '' (replicate (length v) (f @ '' != ?'')) @ '' )''],
                   args := args st @ v, join_var := Some '' AND ''\<rparr>))"
  by (simp add: render_test_def operators_def null_operators_def)

lemma illegal_keys_catalogue:
  "illegal_keys check = [] \<longleftrightarrow> fst ` set check \<subseteq> set keys_list"
  by (auto simp: illegal_keys_def filter_empty_conv keys_list_def)

lemma render_items_step_plain:
  "(\<forall>sub. sub_check \<noteq> PDict sub) \<Longrightarrow>
     \<exists>st'. render_items ((name, sub_check) # rest) st = render_items rest st'"
  by (cases sub_check) auto

lemma render_items_equalities:
  "\<forall>item \<in> set check. \<forall>sub. snd item \<noteq> PDict sub \<Longrightarrow> \<exists>st'. render_items check st = Inr st'"
proof (induction check arbitrary: st)
  case Nil
  then show ?case by simp
next
  case (Cons item check)
  obtain name sub_check where item: "item = (name, sub_check)" by (cases item)
  from Cons.prems have "\<forall>sub. sub_check \<noteq> PDict sub" by (simp add: item)
  then obtain st' where
    "render_items ((name, sub_check) # check) st = render_items check st'"
    using render_items_step_plain [of sub_check name check st] by blast
  moreover from Cons.prems have "\<forall>item \<in> set check. \<forall>sub. snd item \<noteq> PDict sub" by simp
  from Cons.IH [OF this, of st'] obtain st'' where "render_items check st' = Inr st''" ..
  ultimately show ?case by (simp add: item)
qed


subsection \<open>Filters on the buffer columns\<close>

text \<open>
  Claim C1 says that a search dictionary naming \<open>buffers\<close> or \<open>result_buffers\<close> is
  rejected. The key check removes the catalogue from the set of offending keys, and both
  buffer columns are in the catalogue, so such a dictionary passes the check: the
  following evaluation shows two accepted filters.
\<close>

theorem buffers_filter_counterexample:
  "render_expression [(''buffers'', PNone)] = Inr (''buffers IS NULL'', [])
   \<and> render_expression [(''result_buffers'', PBytes ''x'')] =
       Inr (''result_buffers = ?'', [PBytes ''x''])"
  by (simp add: render_expression_def illegal_keys_def keys_list_def)

text \<open>
  Claim C1, amended: a filter that names a buffer column as an equality target is
  accepted. For \<open>f\<close> one of the two buffer columns and a value \<open>v\<close> that is not a
  dictionary, \<open>{f: v}\<close> renders to \<open>f = ?\<close> with the single argument \<open>v\<close>, or to
  \<open>f IS NULL\<close> without arguments when \<open>v\<close> is \<open>None\<close>; and every search dictionary
  whose keys are columns of the catalogue, the buffer columns among them, and whose values
  are equality targets (no dictionary) is rendered without error.
\<close>

theorem buffers_filter_accepted:
  "(f \<in> {''buffers'', ''result_buffers''} \<and> (\<forall>sub. v \<noteq> PDict sub) \<longrightarrow>
      render_expression [(f, v)] =
        Inr (if v = PNone then (f @ '' IS NULL'', []) else (f @ '' = ?'', [v])))
   \<and> ((\<forall>item \<in> set check. fst item \<in> set keys_list \<and> (\<forall>sub. snd item \<noteq> PDict sub)) \<longrightarrow>
        (\<exists>expr argv. render_expression check = Inr (expr, argv)))"
proof (intro conjI impI)
  assume "f \<in> {''buffers'', ''result_buffers''} \<and> (\<forall>sub. v \<noteq> PDict sub)"
  then show "render_expression [(f, v)] =
        Inr (if v = PNone then (f @ '' IS NULL'', []) else (f @ '' = ?'', [v]))"
    by (cases v) (auto simp: render_expression_def illegal_keys_catalogue keys_list_def)
next
  assume a: "\<forall>item \<in> set check. fst item \<in> set keys_list \<and> (\<forall>sub. snd item \<noteq> PDict sub)"
  then have keys: "illegal_keys check = []"
    by (auto simp: illegal_keys_catalogue)
  from a have "\<forall>item \<in> set check. \<forall>sub. snd item \<noteq> PDict sub" by blast
  from render_items_equalities [OF this, of "\<lparr>expressions = [], args = [], join_var = None\<rparr>"]
  obtain st' where "render_items check \<lparr>expressions = [], args = [], join_var = None\<rparr> = Inr st'" ..
  with keys show "\<exists>expr argv. render_expression check = Inr (expr, argv)"
    by (simp add: render_expression_def)
qed

theorem buffers_filter_accepted_witness:
  "render_expression [(''buffers'', PInt 5)] = Inr (''buffers = ?'', [PInt 5])
   \<and> render_expression [(''msg_id'', PStr ''m1''), (''result_buffers'', PNone),
                          (''buffers'', PBytes ''x'')] =
       Inr (''msg_id = ? AND result_buffers IS NULL AND buffers = ?'',
            [PStr ''m1'', PBytes ''x''])"
  using buffers_filter_accepted [of "''buffers''" "PInt 5"
          "[(''msg_id'', PStr ''m1''), (''result_buffers'', PNone), (''buffers'', PBytes ''x'')]"]
  by (simp add: render_expression_def illegal_keys_def keys_list_def)


subsection \<open>Expansion of set membership\<close>

text \<open>
  Claim C4: for a column \<open>f\<close> of the catalogue and a list \<open>v\<close> without \<open>None\<close>,
  \<open>{f: {'$in': v}}\<close> renders to \<open>length v\<close> copies of \<open>f = ?\<close> joined by \<open>OR\<close> inside
  parentheses, and \<open>{f: {'$nin': v}}\<close> to \<open>length v\<close> copies of \<open>f != ?\<close> joined by
  \<open>AND\<close>; in both cases the bound arguments are exactly \<open>v\<close>, in the order of \<open>v\<close>.
\<close>

theorem member_of_expansion:
  assumes "f \<in> set keys_list" and "PNone \<notin> set v"
  shows "render_expression [(f, PDict [(''$in'', PList v)])] =
           Inr (''( '' @ join '' OR '' (replicate (length v) (f @ '' = ?'')) @ '' )'', v)
       \<and> render_expression [(f, PDict [(''$nin'', PList v)])] =
           Inr (''( '' @ join '' AND '' (replicate (length v) (f @ '' != ?'')) @ '' )'', v)"
  using assms
  by (simp add: render_expression_def illegal_keys_catalogue render_test_in render_test_nin)

theorem member_of_expansion_witness:
  "render_expression [(''msg_id'', PDict [(''$in'', PList [PInt 1, PInt 2, PInt 3])])] =
     Inr (''( msg_id = ? OR msg_id = ? OR msg_id = ? )'', [PInt 1, PInt 2, PInt 3])
   \<and> render_expression [(''msg_id'', PDict [(''$nin'', PList [PInt 1, PInt 2, PInt 3])])] =
     Inr (''( msg_id != ? AND msg_id != ? AND msg_id != ? )'', [PInt 1, PInt 2, PInt 3])"
  using member_of_expansion [of "''msg_id''" "[PInt 1, PInt 2, PInt 3]"]
  by (simp add: keys_list_def numeral_3_eq_3)

subsection \<open>Helper facts about dictionaries and rows\<close>

lemma map_of_dict_set: "map_of (dict_set d k v) = (map_of d)(k \<mapsto> v)"
  by (induction d) (auto simp: fun_eq_iff)

lemma map_of_dict_update_dom:
  "dom (map_of d) \<subseteq> dom (map_of (dict_update d other))"
  unfolding dict_update_def
proof (induction other arbitrary: d)
  case Nil then show ?case by simp
next
  case (Cons a other)
  obtain k v where a: "a = (k, v)" by (cases a)
  have "dom (map_of d) \<subseteq> dom (map_of (dict_set d k v))" by (auto simp: map_of_dict_set)
  also have "\<dots> \<subseteq> dom (map_of (fold (\<lambda>(k, v) acc. dict_set acc k v) other (dict_set d k v)))"
    by (rule Cons.IH)
  finally show ?case by (simp add: a)
qed

lemma defaults_dom_aux:
  "dom (map_of (fold (\<lambda>key d. dict_set d key SNull) ks d)) = set ks \<union> dom (map_of d)"
  by (induction ks arbitrary: d) (auto simp: map_of_dict_set)

lemma defaults_dom: "dom (map_of (defaults None)) = set keys_list"
  by (simp add: defaults_def defaults_dom_aux)

lemma lookup_all_total:
  "set ks \<subseteq> dom (map_of d) \<Longrightarrow> lookup_all d ks = Inr (map (\<lambda>k. the (map_of d k)) ks)"
  by (induction ks) auto

lemma add_record_line:
  "dict_to_list (dict_set (dict_update (defaults None) rec) ''msg_id'' v) =
     Inr (map (\<lambda>k. the (map_of (dict_set (dict_update (defaults None) rec) ''msg_id'' v) k)) keys_list)"
  unfolding dict_to_list_def
proof (rule lookup_all_total)
  have "set keys_list \<subseteq> dom (map_of (dict_update (defaults None) rec))"
    using map_of_dict_update_dom [of "defaults None" rec] by (simp add: defaults_dom)
  then show "set keys_list \<subseteq> dom (map_of (dict_set (dict_update (defaults None) rec) ''msg_id'' v))"
    by (auto simp: map_of_dict_set)
qed

lemma add_record_line_props:
  assumes "dict_to_list (dict_set (dict_update (defaults None) rec) ''msg_id'' v) = Inr line"
  shows "length line = length keys_list" and "msg_id_of line = v"
  using assms unfolding add_record_line
  by (auto simp: msg_id_of_def keys_list_def map_of_dict_set)

lemma example_store_simps:
  "table (example_store rs) = ''tasks''"
  "db (example_store rs) ''tasks'' = Some \<lparr>columns = types_dict, rows = rs\<rparr>"
  "executed (example_store rs) = []"
  by (simp_all add: example_store_def)

lemma types_dict_names: "map fst types_dict = keys_list"
  by (simp add: types_dict_def keys_list_def)

lemma no_match_rows:
  "ident \<notin> set (map msg_id_of rs) \<Longrightarrow>
     map (\<lambda>r. if ident \<noteq> SNull \<and> msg_id_of r = ident then f r else r) rs = rs"
  by (induction rs) auto

lemma lookup_all_own_keys: "lookup_all rec (sort (map fst rec)) = Inr (map (\<lambda>k. the (map_of rec k)) (sort (map fst rec)))"
  by (rule lookup_all_total) (auto simp: dom_map_of_conv_image_fst)

lemma dict_set_first:
  "d \<noteq> [] \<Longrightarrow> dict_set d k v \<noteq> [] \<and> fst (hd (dict_set d k v)) = fst (hd d)"
  by (cases d) (auto split: if_splits)

lemma fold_dict_set_first:
  "d \<noteq> [] \<Longrightarrow> fold (\<lambda>(key, v) d. dict_set d key v) kvs d \<noteq> []
     \<and> fst (hd (fold (\<lambda>(key, v) d. dict_set d key v) kvs d)) = fst (hd d)"
proof (induction kvs arbitrary: d)
  case Nil then show ?case by simp
next
  case (Cons a kvs)
  obtain k v where a: "a = (k, v)" by (cases a)
  from dict_set_first [OF Cons.prems, of k v] Cons.IH [of "dict_set d k v"] show ?case
    by (simp add: a)
qed

lemma fold_defaults_first:
  "d \<noteq> [] \<Longrightarrow> fold (\<lambda>key d. dict_set d key SNull) ks d \<noteq> []
     \<and> fst (hd (fold (\<lambda>key d. dict_set d key SNull) ks d)) = fst (hd d)"
proof (induction ks arbitrary: d)
  case Nil then show ?case by simp
next
  case (Cons k ks)
  from dict_set_first [OF Cons.prems, of k SNull] Cons.IH [of "dict_set d k SNull"] show ?case
    by simp
qed

lemma list_to_dict_first:
  "list_to_dict line (Some (k # ks)) \<noteq> [] \<and> fst (hd (list_to_dict line (Some (k # ks)))) = k"
proof -
  have d: "defaults (Some (k # ks)) \<noteq> [] \<and> fst (hd (defaults (Some (k # ks)))) = k"
    using fold_defaults_first [of "[(k, SNull)]" ks] by (simp add: defaults_def)
  then show ?thesis
    using fold_dict_set_first [of "defaults (Some (k # ks))" "zip (k # ks) line"]
    by (simp add: list_to_dict_def Let_def)
qed

subsection \<open>Adding a record twice\<close>

text \<open>
  Claim C6: when a row with identifier \<open>msg_id\<close> is already stored in the table the store
  is bound to (a table of the expected 22 columns), \<open>add_record\<close> with that identifier
  fails with the primary-key error of the engine, \<open>IntegrityError\<close>, and the database
  after the call is the database before it: the stored record is not touched.
\<close>

theorem add_duplicate_fails:
  assumes "db self (table self) = Some t"
    and "column_names t = keys_list"
    and "SText msg_id \<in> set (map msg_id_of (rows t))"
  shows "\<exists>self'. add_record self msg_id rec = (Inl IntegrityError, self')
            \<and> db self' = db self \<and> table self' = table self"
proof -
  obtain line where line: "dict_to_list (dict_set (dict_update (defaults None) rec) ''msg_id'' (SText msg_id)) = Inr line"
    using add_record_line by blast
  have len: "length line = length (columns t)"
    using add_record_line_props(1) [OF line] assms(2) 
    by (metis column_names_def length_map)
  have mid: "msg_id_of line = SText msg_id"
    using add_record_line_props(2) [OF line] .
  have "pk_conflict (rows t) line"
    using assms(3) mid by (simp add: pk_conflict_def)
  then show ?thesis
    using assms(1) len line
    by (simp add: add_record_def Let_def engine_insert_def execute_def)
qed

theorem add_duplicate_fails_witness:
  "\<exists>self'. add_record (example_store [empty_row ''m1'']) ''m1'' [(''queue'', SText ''q'')] =
              (Inl IntegrityError, self')
         \<and> db self' = db (example_store [empty_row ''m1''])
         \<and> table self' = table (example_store [empty_row ''m1''])"
  using add_duplicate_fails [of "example_store [empty_row ''m1'']"
          "\<lparr>columns = types_dict, rows = [empty_row ''m1'']\<rparr>" "''m1''" "[(''queue'', SText ''q'')]"]
  by (simp add: example_store_simps column_names_def types_dict_names msg_id_of_def empty_row_def)

subsection \<open>Updating a record that is not stored\<close>

text \<open>
  Claim C10 says that an update of an identifier that is not stored is a silent no-op for
  every mapping with valid column names. For the empty mapping the statement built is
  \<open>UPDATE 'tasks' SET  WHERE msg_id == ?\<close>, which the engine refuses.
\<close>

theorem update_empty_counterexample:
  "fst (update_record (example_store []) ''m1'' []) = Inl OperationalError
   \<and> executed (snd (update_record (example_store []) ''m1'' [])) =
       [''UPDATE '' @ quoted ''tasks'' @ '' SET  WHERE msg_id == ?'']"
  by (simp add: update_record_def engine_update_def execute_def example_store_def Let_def)

text \<open>
  Claim C10, amended: for an identifier that is not stored and a non-empty mapping whose
  keys are columns of the catalogue, \<open>update_record\<close> raises no error and leaves the
  database as it was.
\<close>

theorem update_absent_noop:
  assumes "db self (table self) = Some t"
    and "column_names t = keys_list"
    and "SText msg_id \<notin> set (map msg_id_of (rows t))"
    and "rec \<noteq> []"
    and "set (map fst rec) \<subseteq> set keys_list"
  shows "\<exists>self'. update_record self msg_id rec = (Inr (), self')
            \<and> db self' = db self \<and> table self' = table self"
proof -
  let ?keys = "sort (map fst rec)"
  let ?vals = "map (\<lambda>k. the (map_of rec k)) ?keys"
  have keys_ne: "zip ?keys ?vals \<noteq> []"
    using assms(4) by (cases rec) (auto simp: zip_eq_Nil_iff)
  have names: "set (map fst (zip ?keys ?vals)) \<subseteq> set (column_names t)"
    using assms(2,5) by (simp add: map_fst_zip)
  have same: "map (\<lambda>r. if SText msg_id \<noteq> SNull \<and> msg_id_of r = SText msg_id
                          then assign t (zip ?keys ?vals) r else r) (rows t) = rows t"
    using assms(3) by (rule no_match_rows)
  have upd: "(db self)(table self \<mapsto> t\<lparr>rows := rows t\<rparr>) = db self"
    using assms(1) by (auto simp: fun_eq_iff)
  show ?thesis
    using assms(1) keys_ne names same upd
    by (simp add: update_record_def lookup_all_own_keys Let_def engine_update_def execute_def
             del: map_map)
qed

theorem update_absent_noop_witness:
  "\<exists>self'. update_record (example_store [empty_row ''m1'']) ''m2'' [(''queue'', SText ''q'')] =
              (Inr (), self')
         \<and> db self' = db (example_store [empty_row ''m1''])
         \<and> table self' = table (example_store [empty_row ''m1''])"
  using update_absent_noop [of "example_store [empty_row ''m1'']"
          "\<lparr>columns = types_dict, rows = [empty_row ''m1'']\<rparr>" "''m2''" "[(''queue'', SText ''q'')]"]
  by (simp add: example_store_simps column_names_def types_dict_names msg_id_of_def empty_row_def
        keys_list_def)

subsection \<open>Projections in \<open>find_records\<close>\<close>

text \<open>
  Claim C9: for a non-empty list of requested keys, every record that \<open>find_records\<close>
  returns has \<open>msg_id\<close> among its keys and as its first key, whatever the requested
  order; when a requested key is outside the catalogue the call fails with \<open>KeyError\<close>
  and the store is as before: no statement was executed.
\<close>

theorem find_projection:
  assumes "ks \<noteq> []"
  shows "(set ks \<subseteq> set keys_list \<longrightarrow>
            (\<forall>recs self'. find_records W self check (Some ks) = (Inr recs, self') \<longrightarrow>
               (\<forall>rec \<in> set recs. rec \<noteq> [] \<and> fst (hd rec) = ''msg_id''
                    \<and> ''msg_id'' \<in> fst ` set rec)))
       \<and> (\<not> set ks \<subseteq> set keys_list \<longrightarrow>
            find_records W self check (Some ks) = (Inl KeyError, self))"
proof (intro conjI impI allI ballI)
  fix recs self' rec
  assume sub: "set ks \<subseteq> set keys_list"
    and res: "find_records W self check (Some ks) = (Inr recs, self')"
    and rec: "rec \<in> set recs"
  from res rec assms obtain line where "rec = list_to_dict line (Some (''msg_id'' # remove1 ''msg_id'' ks))"
    by (auto simp: find_records_def Let_def split: sum.splits if_splits prod.splits)
  then have "rec \<noteq> [] \<and> fst (hd rec) = ''msg_id''"
    using list_to_dict_first by simp
  then show "rec \<noteq> []" "fst (hd rec) = ''msg_id''" "''msg_id'' \<in> fst ` set rec"
    by (auto simp: hd_in_set image_iff intro: bexI [of _ "hd rec"])
next
  assume "\<not> set ks \<subseteq> set keys_list"
  then have "filter (\<lambda>key. key \<notin> set keys_list) ks \<noteq> []"
    by (auto simp: filter_empty_conv)
  then show "find_records W self check (Some ks) = (Inl KeyError, self)"
    using assms by (simp add: find_records_def Let_def)
qed

theorem find_projection_witness:
  "find_records (\<lambda>expr argv. Inr (\<lambda>r. True)) (example_store [empty_row ''m1''])
       [(''msg_id'', PStr ''m1'')] (Some [''queue'', ''msg_id'']) =
     (Inr [[(''msg_id'', SText ''m1''), (''queue'', SNull)]],
      execute (example_store [empty_row ''m1''])
        (''SELECT msg_id, queue FROM '' @ quoted ''tasks'' @ '' WHERE msg_id = ?''))
   \<and> find_records (\<lambda>expr argv. Inr (\<lambda>r. True)) (example_store [empty_row ''m1''])
       [(''msg_id'', PStr ''m1'')] (Some [''queue'', ''nope'']) =
     (Inl KeyError, example_store [empty_row ''m1''])"
  using find_projection [of "[''queue'', ''nope'']" "\<lambda>expr argv. Inr (\<lambda>r. True)"
          "example_store [empty_row ''m1'']" "[(''msg_id'', PStr ''m1'')]"]
        find_projection [of "[''queue'', ''msg_id'']" "\<lambda>expr argv. Inr (\<lambda>r. True)"
          "example_store [empty_row ''m1'']" "[(''msg_id'', PStr ''m1'')]"]
  by (simp add: find_records_def Let_def render_expression_def illegal_keys_def keys_list_def
        engine_select_def execute_def example_store_def empty_row_def column_names_def
        types_dict_def cell_def list_to_dict_def defaults_def eval_nat_numeral)

subsection \<open>Invalid input is refused before the engine is called\<close>

lemma render_test_bad:
  assumes "bad_test (test, v)"
  shows "\<exists>e. render_test name test v st = Inl e"
proof (cases "map_of operators test")
  case None
  then show ?thesis by (simp add: render_test_def)
next
  case (Some entry)
  with assms have t: "test = ''$in'' \<or> test = ''$nin''"
    and v: "(\<exists>vs. v = PList vs \<and> PNone \<in> set vs) \<or> (\<exists>vs. v = PTuple vs \<and> PNone \<in> set vs)"
    by (auto simp: bad_test_def split: pyval.splits)
  from t v show ?thesis
    by (auto simp: render_test_def operators_def null_operators_def)
qed

lemma render_tests_bad:
  "list_ex bad_test sub \<Longrightarrow> \<exists>e. render_tests name sub st = Inl e"
proof (induction sub arbitrary: st)
  case Nil
  then show ?case by simp
next
  case (Cons item sub)
  obtain test v where item: "item = (test, v)" by (cases item)
  show ?case
  proof (cases "render_test name test v st")
    case (Inl e)
    then show ?thesis by (simp add: item)
  next
    case (Inr st')
    with render_test_bad [of test v name st] have "\<not> bad_test (test, v)" by auto
    with Cons.prems item have "list_ex bad_test sub" by simp
    from Cons.IH [OF this, of st'] Inr show ?thesis by (simp add: item)
  qed
qed


lemma render_items_bad:
  "list_ex bad_item check \<Longrightarrow> \<exists>e. render_items check st = Inl e"
proof (induction check arbitrary: st)
  case Nil
  then show ?case by simp
next
  case (Cons item check)
  obtain name sub_check where item: "item = (name, sub_check)" by (cases item)
  show ?case
  proof (cases "\<exists>sub. sub_check = PDict sub")
    case True
    then obtain sub where sub: "sub_check = PDict sub" by blast
    show ?thesis
    proof (cases "render_tests name sub st")
      case (Inl e)
      then show ?thesis by (simp add: item sub)
    next
      case (Inr st')
      with render_tests_bad [of sub name st] have "\<not> list_ex bad_test sub" by auto
      then have "\<not> bad_item item" by (simp add: bad_item_def item sub)
      with Cons.prems have "list_ex bad_item check" by simp
      from Cons.IH [OF this, of st'] Inr show ?thesis by (simp add: item sub)
    qed
  next
    case False
    then have nb: "\<not> bad_item item" by (cases sub_check) (simp_all add: bad_item_def item)
    with Cons.prems have rest: "list_ex bad_item check" by simp
    from False obtain st' where
      "render_items ((name, sub_check) # check) st = render_items check st'"
      using render_items_step_plain [of sub_check name check st] by blast
    with Cons.IH [OF rest, of st'] show ?thesis by (simp add: item)
  qed
qed


lemma list_ex_weaken:
  "list_ex P xs \<Longrightarrow> (\<And>x. x \<in> set xs \<Longrightarrow> P x \<Longrightarrow> Q x) \<Longrightarrow> list_ex Q xs"
  by (auto simp: list_ex_iff)

lemma unknown_operator_bad: "unknown_operator check \<Longrightarrow> list_ex bad_item check"
  unfolding unknown_operator_def
proof (erule list_ex_weaken)
  fix item :: "string \<times> pyval"
  obtain name sub_check where item: "item = (name, sub_check)" by (cases item)
  assume "case item of (name, sub_check) \<Rightarrow>
            (case sub_check of
               PDict sub \<Rightarrow> list_ex (\<lambda>(test, v). map_of operators test = None) sub
             | _ \<Rightarrow> False)"
  then obtain sub where sub: "sub_check = PDict sub"
      "list_ex (\<lambda>(test, v). map_of operators test = None) sub"
    by (cases sub_check) (simp_all add: item)
  from sub(2) have "list_ex bad_test sub"
    by (rule list_ex_weaken) (auto simp: bad_test_def)
  then show "bad_item item" by (simp add: bad_item_def item sub(1))
qed

lemma null_element_in_membership_bad: "null_element_in_membership check \<Longrightarrow> list_ex bad_item check"
  unfolding null_element_in_membership_def
proof (erule list_ex_weaken)
  fix item :: "string \<times> pyval"
  obtain name sub_check where item: "item = (name, sub_check)" by (cases item)
  assume "case item of (name, sub_check) \<Rightarrow>
            (case sub_check of
               PDict sub \<Rightarrow>
                 list_ex (\<lambda>(test, v). test \<in> {''$in'', ''$nin''} \<and>
                    (case v of PList vs \<Rightarrow> PNone \<in> set vs | PTuple vs \<Rightarrow> PNone \<in> set vs
                     | _ \<Rightarrow> False)) sub
             | _ \<Rightarrow> False)"
  then obtain sub where sub: "sub_check = PDict sub"
      "list_ex (\<lambda>(test, v). test \<in> {''$in'', ''$nin''} \<and>
                    (case v of PList vs \<Rightarrow> PNone \<in> set vs | PTuple vs \<Rightarrow> PNone \<in> set vs
                     | _ \<Rightarrow> False)) sub"
    by (cases sub_check) (simp_all add: item)
  from sub(2) have "list_ex bad_test sub"
    by (rule list_ex_weaken) (simp add: bad_test_def split: prod.splits)
  then show "bad_item item" by (simp add: bad_item_def item sub(1))
qed

lemma render_test_error_cases:
  assumes "render_test name test v st = Inl e"
  shows "validation_error e \<or> (e = UnboundLocalError \<and> plain_list_test (test, v))"
proof (cases "map_of operators test")
  case None
  with assms show ?thesis by (simp add: render_test_def validation_error_def)
next
  case (Some entry)
  define op where "op = (case entry of Plain s \<Rightarrow> s | Joined s j \<Rightarrow> s)"
  define jn where "jn = (case entry of Plain s \<Rightarrow> join_var st | Joined s j \<Rightarrow> Some j)"
  have pair: "(case entry of Plain s \<Rightarrow> (s, join_var st) | Joined s j \<Rightarrow> (s, Some j)) = (op, jn)"
    by (cases entry) (simp_all add: op_def jn_def)
  define seq where "seq = (case v of PList vs \<Rightarrow> Some vs | PTuple vs \<Rightarrow> Some vs | _ \<Rightarrow> None)"
  from assms have eq: "(if v = PNone \<and> op \<in> set (map fst null_operators) then
             (case map_of null_operators op of
                None \<Rightarrow> Inl KeyError
              | Some nop \<Rightarrow>
                  Inr (st\<lparr>expressions := expressions st @ [name @ '' '' @ nop],
                          join_var := jn\<rparr>))
           else
             (case seq of
                   Some vs \<Rightarrow>
                     if op \<in> set (map fst null_operators) \<and> PNone \<in> set vs then Inl ValueError
                     else
                       (case jn of
                          None \<Rightarrow> Inl UnboundLocalError
                        | Some j \<Rightarrow>
                            Inr (st\<lparr>expressions := expressions st @
                                       [''( '' @ join j (replicate (length vs) (name @ '' '' @ op @ '' ?'')) @ '' )''],
                                    args := args st @ vs,
                                    join_var := jn\<rparr>))
                 | None \<Rightarrow>
                     Inr (st\<lparr>expressions := expressions st @ [name @ '' '' @ op @ '' ?''],
                             args := args st @ [v],
                             join_var := jn\<rparr>))) = Inl e"
    unfolding render_test_def Some option.case Let_def pair prod.case seq_def .
  show ?thesis
  proof (cases "e = UnboundLocalError")
    case False
    with eq show ?thesis
      by (cases seq; cases jn; cases "map_of null_operators op")
         (simp_all add: validation_error_def split: if_splits)
  next
    case True
    with eq have "seq \<noteq> None \<and> jn = None"
      by (cases seq; cases jn; cases "map_of null_operators op")
         (simp_all split: if_splits)
    then have s: "seq \<noteq> None" and j: "jn = None" by simp_all
    from j obtain s' where plain: "entry = Plain s'"
      by (cases entry) (simp_all add: jn_def)
    from s have "(case v of PList vs \<Rightarrow> True | PTuple vs \<Rightarrow> True | _ \<Rightarrow> False)"
      by (cases v) (simp_all add: seq_def)
    with Some plain True show ?thesis
      by (simp add: plain_list_test_def)
  qed
qed

lemma render_tests_error_cases:
  "render_tests name sub st = Inl e \<Longrightarrow>
     validation_error e \<or> (e = UnboundLocalError \<and> list_ex plain_list_test sub)"
proof (induction sub arbitrary: st)
  case Nil
  then show ?case by simp
next
  case (Cons item sub)
  obtain test v where item: "item = (test, v)" by (cases item)
  show ?case
  proof (cases "render_test name test v st")
    case (Inl e')
    with Cons.prems have "e' = e" by (simp add: item)
    with Inl have "render_test name test v st = Inl e" by simp
    from render_test_error_cases [OF this] show ?thesis by (auto simp: item)
  next
    case (Inr st')
    with Cons.prems have "render_tests name sub st' = Inl e" by (simp add: item)
    from Cons.IH [OF this] show ?thesis by auto
  qed
qed

lemma render_items_error_cases:
  "render_items check st = Inl e \<Longrightarrow>
     validation_error e \<or> (e = UnboundLocalError \<and> plain_list_operand check)"
proof (induction check arbitrary: st)
  case Nil
  then show ?case by simp
next
  case (Cons item check)
  obtain name sub_check where item: "item = (name, sub_check)" by (cases item)
  show ?case
  proof (cases "\<exists>sub. sub_check = PDict sub")
    case True
    then obtain sub where sub: "sub_check = PDict sub" by blast
    show ?thesis
    proof (cases "render_tests name sub st")
      case (Inl e')
      with Cons.prems have "e' = e" by (simp add: item sub)
      with Inl have "render_tests name sub st = Inl e" by simp
      from render_tests_error_cases [OF this] show ?thesis
        by (auto simp: plain_list_operand_def item sub)
    next
      case (Inr st')
      with Cons.prems have "render_items check st' = Inl e" by (simp add: item sub)
      from Cons.IH [OF this] show ?thesis by (auto simp: plain_list_operand_def)
    qed
  next
    case False
    then obtain st' where
      "render_items ((name, sub_check) # check) st = render_items check st'"
      using render_items_step_plain [of sub_check name check st] by blast
    with Cons.prems have "render_items check st' = Inl e" by (simp add: item)
    from Cons.IH [OF this] show ?thesis by (auto simp: plain_list_operand_def)
  qed
qed

lemma render_expression_error_cases:
  assumes "render_expression check = Inl e"
  shows "validation_error e \<or> (e = UnboundLocalError \<and> plain_list_operand check)"
proof (cases "illegal_keys check = []")
  case False
  with assms show ?thesis by (simp add: render_expression_def validation_error_def)
next
  case True
  show ?thesis
  proof (cases "render_items check \<lparr>expressions = [], args = [], join_var = None\<rparr>")
    case (Inl e')
    with assms True have "e' = e" by (simp add: render_expression_def)
    with Inl show ?thesis using render_items_error_cases by blast
  next
    case (Inr st')
    with assms True show ?thesis by (simp add: render_expression_def)
  qed
qed

lemma unknown_field_illegal: "unknown_field check \<Longrightarrow> illegal_keys check \<noteq> []"
  by (auto simp: unknown_field_def illegal_keys_catalogue list_ex_iff)

lemma render_expression_refuses:
  assumes "unknown_operator check \<or> null_element_in_membership check"
    and "\<not> plain_list_operand check"
  shows "\<exists>e. render_expression check = Inl e \<and> validation_error e"
proof -
  have "\<exists>e. render_expression check = Inl e"
  proof (cases "illegal_keys check = []")
    case False
    then show ?thesis by (simp add: render_expression_def)
  next
    case True
    from assms(1) have "list_ex bad_item check"
      using unknown_operator_bad null_element_in_membership_bad by blast
    from render_items_bad [OF this, of "\<lparr>expressions = [], args = [], join_var = None\<rparr>"]
    obtain e where "render_items check \<lparr>expressions = [], args = [], join_var = None\<rparr> = Inl e"
      by blast
    with True show ?thesis by (simp add: render_expression_def)
  qed
  then obtain e where e: "render_expression check = Inl e" ..
  from render_expression_error_cases [OF e] assms(2) have "validation_error e" by blast
  with e show ?thesis by blast
qed

lemma find_records_validation_error:
  assumes "render_expression check = Inl e" and "validation_error e"
  shows "\<exists>e'. find_records W self check keys = (Inl e', self) \<and> validation_error e'"
proof (cases "(case keys of None \<Rightarrow> False | Some ks \<Rightarrow> ks \<noteq> []) \<and>
              (case keys of None \<Rightarrow> [] | Some ks \<Rightarrow> filter (\<lambda>key. key \<notin> set keys_list) ks) \<noteq> []")
  case True
  then have "find_records W self check keys = (Inl KeyError, self)"
    by (simp add: find_records_def Let_def)
  then show ?thesis by (simp add: validation_error_def)
next
  case False
  then have "find_records W self check keys = (Inl e, self)"
    using assms(1) by (cases keys) (auto simp: find_records_def Let_def)
  then show ?thesis using assms(2) by simp
qed

text \<open>
  Claim C5 says that a null value combined with \<open>$in\<close> or \<open>$nin\<close>, like an unknown
  operator, makes \<open>find_records\<close> and \<open>drop_matching_records\<close> raise a validation
  error before the engine is called. With \<open>None\<close> as the operand itself the code takes
  the branch \<open>value is None and op in null_operators\<close>: \<open>{'msg_id': {'$in': None}}\<close>
  renders to \<open>msg_id IS NULL\<close>, \<open>$nin\<close> to \<open>msg_id IS NOT NULL\<close>, and the statement
  is executed. And in \<open>{'msg_id': {'$eq': [1], '$foo': 2}}\<close> the unknown operator is
  not reached: the list under \<open>$eq\<close> stops the translator with \<open>UnboundLocalError\<close>,
  which is not a validation error.
\<close>

theorem null_operand_counterexample:
  "fst (drop_matching_records (\<lambda>expr argv. Inr (\<lambda>r. False)) (example_store [empty_row ''m1''])
          [(''msg_id'', PDict [(''$in'', PNone)])]) = Inr ()
   \<and> executed (snd (drop_matching_records (\<lambda>expr argv. Inr (\<lambda>r. False))
          (example_store [empty_row ''m1'']) [(''msg_id'', PDict [(''$in'', PNone)])])) =
       [''DELETE FROM '' @ quoted ''tasks'' @ '' WHERE msg_id IS NULL'']
   \<and> fst (find_records (\<lambda>expr argv. Inr (\<lambda>r. False)) (example_store [empty_row ''m1''])
          [(''msg_id'', PDict [(''$nin'', PNone)])] None) = Inr []
   \<and> executed (snd (find_records (\<lambda>expr argv. Inr (\<lambda>r. False))
          (example_store [empty_row ''m1'']) [(''msg_id'', PDict [(''$nin'', PNone)])] None)) =
       [''SELECT * FROM '' @ quoted ''tasks'' @ '' WHERE msg_id IS NOT NULL'']
   \<and> find_records (\<lambda>expr argv. Inr (\<lambda>r. False)) (example_store [empty_row ''m1''])
          [(''msg_id'', PDict [(''$eq'', PList [PInt 1]), (''$foo'', PInt 2)])] None =
       (Inl UnboundLocalError, example_store [empty_row ''m1''])"
  by (simp add: drop_matching_records_def find_records_def render_expression_def
        illegal_keys_def keys_list_def render_test_def operators_def null_operators_def
        Let_def execute_def engine_delete_def engine_select_def example_store_def)

text \<open>
  Claim C5, amended: when the search dictionary has a test that is not an operator, or a
  \<open>None\<close> element in the list of a \<open>$in\<close> or \<open>$nin\<close> test, and no list stands under
  a plain comparison operator, both \<open>find_records\<close> and \<open>drop_matching_records\<close> raise
  \<open>KeyError\<close> or \<open>ValueError\<close>, and the store they return is the store they were given:
  the database is the same and no statement was executed. When a key of the search
  dictionary is outside the catalogue both raise \<open>KeyError\<close> in the same way, whatever
  else the dictionary holds, and so does \<open>find_records\<close> for a requested key outside the
  catalogue.
\<close>

theorem invalid_input_rejected:
  "((unknown_operator check \<or> null_element_in_membership check) \<and> \<not> plain_list_operand check \<longrightarrow>
      (\<exists>e. find_records W self check keys = (Inl e, self) \<and> validation_error e)
    \<and> (\<exists>e. drop_matching_records W self check = (Inl e, self) \<and> validation_error e))
   \<and> (unknown_field check \<longrightarrow>
        find_records W self check keys = (Inl KeyError, self)
      \<and> drop_matching_records W self check = (Inl KeyError, self))
   \<and> (unknown_projection keys \<longrightarrow> find_records W self check keys = (Inl KeyError, self))"
proof (intro conjI impI)
  assume a: "(unknown_operator check \<or> null_element_in_membership check) \<and> \<not> plain_list_operand check"
  then have "\<exists>e. render_expression check = Inl e \<and> validation_error e"
    using render_expression_refuses by blast
  then obtain e where e: "render_expression check = Inl e" "validation_error e" by blast
  show "\<exists>e. drop_matching_records W self check = (Inl e, self) \<and> validation_error e"
    using e by (simp add: drop_matching_records_def)
  show "\<exists>e. find_records W self check keys = (Inl e, self) \<and> validation_error e"
    using e by (rule find_records_validation_error)
next
  assume u: "unknown_field check"
  then have r: "render_expression check = Inl KeyError"
    by (simp add: render_expression_def unknown_field_illegal)
  show "drop_matching_records W self check = (Inl KeyError, self)"
    using r by (simp add: drop_matching_records_def)
  show "find_records W self check keys = (Inl KeyError, self)"
    using r by (cases keys) (auto simp: find_records_def Let_def)
next
  assume "unknown_projection keys"
  then obtain ks where "keys = Some ks" "filter (\<lambda>key. key \<notin> set keys_list) ks \<noteq> []"
    by (cases keys) (auto simp: unknown_projection_def list_ex_iff filter_empty_conv)
  then show "find_records W self check keys = (Inl KeyError, self)"
    by (cases ks) (simp_all add: find_records_def Let_def)
qed

theorem invalid_input_rejected_witness:
  "null_element_in_membership [(''msg_id'', PDict [(''$in'', PList [PInt 1, PNone])])]
   \<and> \<not> plain_list_operand [(''msg_id'', PDict [(''$in'', PList [PInt 1, PNone])])]
   \<and> find_records (\<lambda>expr argv. Inr (\<lambda>r. True)) (example_store [empty_row ''m1''])
        [(''msg_id'', PDict [(''$in'', PList [PInt 1, PNone])])] None =
       (Inl ValueError, example_store [empty_row ''m1''])
   \<and> unknown_operator [(''msg_id'', PDict [(''$foo'', PInt 1)])]
   \<and> \<not> plain_list_operand [(''msg_id'', PDict [(''$foo'', PInt 1)])]
   \<and> drop_matching_records (\<lambda>expr argv. Inr (\<lambda>r. True)) (example_store [empty_row ''m1''])
        [(''msg_id'', PDict [(''$foo'', PInt 1)])] =
       (Inl KeyError, example_store [empty_row ''m1''])
   \<and> unknown_field [(''nope'', PInt 1)]
   \<and> drop_matching_records (\<lambda>expr argv. Inr (\<lambda>r. True)) (example_store [empty_row ''m1''])
        [(''nope'', PInt 1)] =
       (Inl KeyError, example_store [empty_row ''m1''])
   \<and> unknown_projection (Some [''nope''])
   \<and> find_records (\<lambda>expr argv. Inr (\<lambda>r. True)) (example_store [empty_row ''m1''])
        [] (Some [''nope'']) =
       (Inl KeyError, example_store [empty_row ''m1''])"
  using invalid_input_rejected [of "[(''msg_id'', PDict [(''$in'', PList [PInt 1, PNone])])]"
          "\<lambda>expr argv. Inr (\<lambda>r. True)" "example_store [empty_row ''m1'']" None]
        invalid_input_rejected [of "[(''msg_id'', PDict [(''$foo'', PInt 1)])]"
          "\<lambda>expr argv. Inr (\<lambda>r. True)" "example_store [empty_row ''m1'']" None]
        invalid_input_rejected [of "[(''nope'', PInt 1)]"
          "\<lambda>expr argv. Inr (\<lambda>r. True)" "example_store [empty_row ''m1'']" "Some [''nope'']"]
  by (simp add: null_element_in_membership_def unknown_operator_def unknown_field_def
        unknown_projection_def plain_list_operand_def plain_list_test_def
        find_records_def drop_matching_records_def
        render_expression_def illegal_keys_def keys_list_def render_test_def operators_def
        null_operators_def Let_def)

subsection \<open>Round trip of buffer lists\<close>

lemma tobytes_block: "is_bytes_like x \<Longrightarrow> tobytes x = Inr (block_bytes x)"
  by (cases x) simp_all

lemma tobytes_all_blocks:
  "\<forall>x \<in> set b. is_bytes_like x \<Longrightarrow> tobytes_all b = Inr (map block_bytes b)"
  by (induction b) (simp_all add: tobytes_block)

lemma adapt_bufs_blocks:
  assumes "\<forall>x \<in> set b. is_bytes_like x"
  shows "adapt_bufs dumps (PList b) =
           (if b = [] then Inr PNone
            else Inr (PMemoryview (dumps (PList (map PBytes (map block_bytes b))))))"
proof (cases b)
  case Nil
  then show ?thesis by (simp add: adapt_bufs_def)
next
  case (Cons x xs)
  with assms have "is_bytes_like x" by simp
  moreover have "tobytes_all (x # xs) = Inr (map block_bytes (x # xs))"
    using assms Cons tobytes_all_blocks by blast
  ultimately show ?thesis
    using Cons by (simp add: adapt_bufs_def)
qed

text \<open>
  Claim C7: for a sequence \<open>b\<close> of byte blocks on which pickle round-trips, the converter
  applied to the adapter's result gives the list of the same byte strings, in the same
  order and number; the adapter maps \<open>None\<close> and the empty list to \<open>None\<close>, and the
  converter maps \<open>None\<close> to the empty list.
\<close>

theorem buffers_roundtrip:
  assumes "\<forall>x \<in> set b. is_bytes_like x"
    and "loads (dumps (PList (map PBytes (map block_bytes b)))) =
           Inr (PList (map PBytes (map block_bytes b)))"
  shows "(\<exists>enc. adapt_bufs dumps (PList b) = Inr enc
            \<and> convert_bufs loads enc = Inr (PList (map PBytes (map block_bytes b))))
       \<and> adapt_bufs dumps PNone = Inr PNone
       \<and> adapt_bufs dumps (PList []) = Inr PNone
       \<and> convert_bufs loads PNone = Inr (PList [])"
proof (intro conjI)
  show "\<exists>enc. adapt_bufs dumps (PList b) = Inr enc
            \<and> convert_bufs loads enc = Inr (PList (map PBytes (map block_bytes b)))"
    using assms by (cases "b = []") (simp_all add: adapt_bufs_blocks convert_bufs_def)
qed (simp_all add: adapt_bufs_def convert_bufs_def)

theorem buffers_roundtrip_witness:
  "(\<exists>enc. adapt_bufs frame_dumps (PList [PBytes ''ab'', PMemoryview ''c'', PBytes '''']) = Inr enc
       \<and> convert_bufs frame_loads enc = Inr (PList [PBytes ''ab'', PBytes ''c'', PBytes '''']))
   \<and> adapt_bufs frame_dumps PNone = Inr PNone
   \<and> adapt_bufs frame_dumps (PList []) = Inr PNone
   \<and> convert_bufs frame_loads PNone = Inr (PList [])"
  using buffers_roundtrip [of "[PBytes ''ab'', PMemoryview ''c'', PBytes '''']" frame_loads frame_dumps]
  by (simp add: frame_loads_def)

subsection \<open>Helper facts about the schema check and the renaming loop\<close>

lemma parse_digit: "d < 10 \<Longrightarrow> of_char (digit_char d) - 48 = d"
  by (simp add: digit_char_def)

lemma parse_nat_snoc:
  "parse_nat (s @ [c]) = 10 * parse_nat s + (of_char c - 48)"
  by (simp add: parse_nat_def)

lemma parse_str_nat: "parse_nat (str_nat n) = n"
proof (induction n rule: str_nat.induct)
  case (1 n)
  show ?case
  proof (cases "n < 10")
    case True
    then show ?thesis
      by (subst str_nat.simps) (simp add: parse_nat_def parse_digit)
  next
    case False
    then have "parse_nat (str_nat (n div 10)) = n div 10" by (rule "1.IH")
    with False show ?thesis
      by (subst str_nat.simps) (simp add: parse_nat_snoc parse_digit)
  qed
qed

lemma str_nat_inj: "str_nat i = str_nat j \<Longrightarrow> i = j"
  by (metis parse_str_nat)

lemma candidate_inj: "candidate first_table i = candidate first_table j \<Longrightarrow> i = j"
  by (auto simp: candidate_def dest: str_nat_inj split: if_splits)

lemma inj_candidate: "inj (candidate first_table)"
  by (rule injI) (rule candidate_inj)

lemma candidate_Suc: "first_table @ ''_'' @ str_nat (Suc i) = candidate first_table (Suc i)"
  by (simp add: candidate_def)


lemma fold_dict_set_distinct:
  "distinct (map fst lines) \<Longrightarrow> fst ` set acc \<inter> fst ` set lines = {} \<Longrightarrow>
     fold (\<lambda>(name, ty) d. dict_set d name ty) lines acc = acc @ lines"
proof (induction lines arbitrary: acc)
  case Nil
  then show ?case by simp
next
  case (Cons a lines)
  obtain k v where a: "a = (k, v)" by (cases a)
  have notin: "k \<notin> fst ` set acc" using Cons.prems(2) by (auto simp: a)
  have app: "dict_set acc k v = acc @ [(k, v)]"
    using notin by (induction acc) auto
  have "fold (\<lambda>(name, ty) d. dict_set d name ty) lines (acc @ [(k, v)]) = (acc @ [(k, v)]) @ lines"
  proof (rule Cons.IH)
    show "distinct (map fst lines)" using Cons.prems(1) by simp
    show "fst ` set (acc @ [(k, v)]) \<inter> fst ` set lines = {}"
      using Cons.prems by (auto simp: a)
  qed
  then show ?case by (simp add: a app)
qed

lemma check_types_eq:
  "set ks \<subseteq> fst ` set types \<Longrightarrow> set ks \<subseteq> fst ` set types_dict \<Longrightarrow>
     check_types types ks = Inr (\<forall>k \<in> set ks. map_of types k = map_of types_dict k)"
proof (induction ks)
  case Nil
  then show ?case by simp
next
  case (Cons k ks)
  from Cons.prems obtain ty where ty: "map_of types k = Some ty"
    by (metis domD dom_map_of_conv_image_fst list.set_intros(1) subsetD)
  from Cons.prems obtain ety where ety: "map_of types_dict k = Some ety"
    by (metis domD dom_map_of_conv_image_fst list.set_intros(1) subsetD)
  from Cons show ?case by (auto simp: ty ety)
qed

lemma types_dict_fst: "map fst types_dict = keys_list"
  by (simp add: types_dict_def keys_list_def)

lemma distinct_keys_list: "distinct keys_list"
  by (simp add: keys_list_def)

lemma same_keys_same_lookup:
  assumes "map fst xs = map fst ys" and "distinct (map fst xs)"
    and "\<forall>k \<in> set (map fst xs). map_of xs k = map_of ys k"
  shows "xs = ys"
proof -
  have len: "length (map snd xs) = length (map fst xs)" "length (map snd ys) = length (map fst xs)"
    using assms(1) by (simp_all, metis length_map)
  have "map_of (zip (map fst xs) (map snd xs)) = map_of (zip (map fst xs) (map snd ys))"
  proof
    fix k
    show "map_of (zip (map fst xs) (map snd xs)) k = map_of (zip (map fst xs) (map snd ys)) k"
    proof (cases "k \<in> set (map fst xs)")
      case True
      with assms(3) have "map_of xs k = map_of ys k" by blast
      then show ?thesis by (simp add: zip_map_fst_snd assms(1) [symmetric] flip: assms(1))
         (metis assms(1) zip_map_fst_snd)
    next
      case False
      then show ?thesis
        by (metis len map_of_zip_is_None)
    qed
  qed
  then have "map snd xs = map snd ys"
    using map_of_zip_inject [OF len assms(2)] by blast
  with assms(1) show ?thesis
    by (metis zip_map_fst_snd)
qed

lemma check_table_usable:
  "check_table self =
     (Inr (usable (db self) (table self)),
      execute self (''PRAGMA table_info('' @ quoted (table self) @ '')''))"
proof (cases "db self (table self)")
  case None
  then show ?thesis
    by (simp add: check_table_def table_info_def execute_def usable_def Let_def)
next
  case (Some t)
  show ?thesis
  proof (cases "columns t = []")
    case True
    with Some show ?thesis
      by (simp add: check_table_def table_info_def execute_def usable_def Let_def)
  next
    case ne: False
    show ?thesis
    proof (cases "keys_list = map fst (columns t)")
      case False
      then have "columns t \<noteq> types_dict" using types_dict_fst by metis
      with Some ne False show ?thesis
        by (simp add: check_table_def table_info_def execute_def usable_def Let_def)
    next
      case True
      then have dist: "distinct (map fst (columns t))" using distinct_keys_list by simp
      have fold: "fold (\<lambda>(name, ty) d. dict_set d name ty) (columns t) [] = columns t"
        using fold_dict_set_distinct [OF dist, of "[]"] by simp
      have "check_types (columns t) keys_list =
              Inr (\<forall>k \<in> set keys_list. map_of (columns t) k = map_of types_dict k)"
      proof (rule check_types_eq)
        show "set keys_list \<subseteq> fst ` set (columns t)" using True by (metis set_map subset_refl)
        show "set keys_list \<subseteq> fst ` set types_dict" using types_dict_fst by (metis set_map subset_refl)
      qed
      moreover have "(\<forall>k \<in> set keys_list. map_of (columns t) k = map_of types_dict k)
                      \<longleftrightarrow> columns t = types_dict"
      proof
        assume "\<forall>k \<in> set keys_list. map_of (columns t) k = map_of types_dict k"
        then show "columns t = types_dict"
          using same_keys_same_lookup [of "columns t" types_dict] True dist types_dict_fst
          by simp
      qed simp
      ultimately show ?thesis
        using Some ne True fold
        by (simp add: check_table_def table_info_def execute_def usable_def Let_def)
    qed
  qed
qed


lemma init_loop_found:
  "usable (db self) (table self) \<Longrightarrow>
     init_loop self first_table i =
       Some (Inr (execute self (''PRAGMA table_info('' @ quoted (table self) @ '')'')))"
  by (subst init_loop.simps) (simp add: check_table_usable)

lemma init_loop_next:
  "\<not> usable (db self) (table self) \<Longrightarrow>
     init_loop self first_table i =
       init_loop ((execute self (''PRAGMA table_info('' @ quoted (table self) @ '')''))
                    \<lparr>table := candidate first_table (Suc i)\<rparr>) first_table (Suc i)"
  by (subst init_loop.simps) (simp add: check_table_usable candidate_def)

lemma init_loop_reaches:
  assumes "usable d (candidate first_table k)"
    and "\<forall>j. i \<le> j \<and> j < k \<longrightarrow> \<not> usable d (candidate first_table j)"
    and "i \<le> k"
    and "table self = candidate first_table i"
    and "db self = d"
  shows "\<exists>self'. init_loop self first_table i = Some (Inr self')
            \<and> table self' = candidate first_table k \<and> db self' = d"
  using assms
proof (induction "k - i" arbitrary: i self)
  case 0
  then have "i = k" by simp
  with 0 show ?case by (simp add: init_loop_found execute_def)
next
  case (Suc n)
  then have lt: "i < k" by simp
  with Suc.prems have bad: "\<not> usable (db self) (table self)" by simp
  let ?next = "(execute self (''PRAGMA table_info('' @ quoted (table self) @ '')''))
                 \<lparr>table := candidate first_table (Suc i)\<rparr>"
  have "\<exists>self'. init_loop ?next first_table (Suc i) = Some (Inr self')
            \<and> table self' = candidate first_table k \<and> db self' = d"
  proof (rule Suc.hyps(1))
    show "n = k - Suc i" using Suc.hyps(2) by simp
    show "usable d (candidate first_table k)" by (rule Suc.prems(1))
    show "\<forall>j. Suc i \<le> j \<and> j < k \<longrightarrow> \<not> usable d (candidate first_table j)"
      using Suc.prems(2) by simp
    show "Suc i \<le> k" using lt by simp
    show "table ?next = candidate first_table (Suc i)" by simp
    show "db ?next = d" using Suc.prems(5) by (simp add: execute_def)
  qed
  then show ?case by (simp add: init_loop_next [OF bad])
qed

lemma unusable_in_dom: "\<not> usable d name \<Longrightarrow> name \<in> dom d"
  by (cases "d name") (simp_all add: usable_def dom_def)

lemma finite_unusable:
  assumes "finite (dom d)"
  shows "finite {j. \<not> usable d (candidate first_table j)}"
proof (rule finite_subset)
  show "{j. \<not> usable d (candidate first_table j)} \<subseteq> candidate first_table -` dom d"
  proof
    fix j assume "j \<in> {j. \<not> usable d (candidate first_table j)}"
    then have "candidate first_table j \<in> dom d" using unusable_in_dom by blast
    then show "j \<in> candidate first_table -` dom d" by (rule vimageI2)
  qed
  show "finite (candidate first_table -` dom d)"
    using assms inj_candidate by (rule finite_vimageI)
qed

lemma some_usable:
  assumes "finite (dom d)"
  shows "\<exists>m. usable d (candidate first_table m)"
proof -
  from finite_unusable [OF assms, of first_table]
  obtain b where b: "\<forall>j \<in> {j. \<not> usable d (candidate first_table j)}. j < b"
    unfolding finite_nat_set_iff_bounded by blast
  have "usable d (candidate first_table b)"
  proof (rule ccontr)
    assume "\<not> usable d (candidate first_table b)"
    then have "b \<in> {j. \<not> usable d (candidate first_table j)}" by (rule CollectI)
    with b have "b < b" by (rule bspec)
    then show False by simp
  qed
  then show ?thesis ..
qed


lemma candidates_below_card:
  assumes "finite (dom d)" and "\<forall>j < k. \<not> usable d (candidate first_table j)"
  shows "k \<le> card (dom d)"
proof -
  have sub: "candidate first_table ` {..<k} \<subseteq> dom d"
  proof
    fix name assume "name \<in> candidate first_table ` {..<k}"
    then obtain j where "j < k" "name = candidate first_table j" by auto
    with assms(2) show "name \<in> dom d" using unusable_in_dom by blast
  qed
  have "inj_on (candidate first_table) {..<k}"
    using inj_candidate by (rule inj_on_subset) simp
  then have "card (candidate first_table ` {..<k}) = card {..<k}" by (rule card_image)
  then have "card (candidate first_table ` {..<k}) = k" by simp
  moreover have "card (candidate first_table ` {..<k}) \<le> card (dom d)"
    using assms(1) sub by (rule card_mono)
  ultimately show ?thesis by simp
qed

lemma first_usable_exists:
  assumes "finite (dom d)"
  shows "\<exists>k. usable d (candidate first_table k)
            \<and> (\<forall>j < k. \<not> usable d (candidate first_table j))
            \<and> k \<le> card (dom d)"
proof -
  from some_usable [OF assms] obtain m where m: "usable d (candidate first_table m)" ..
  define k where "k = (LEAST m. usable d (candidate first_table m))"
  have k: "usable d (candidate first_table k)"
    unfolding k_def using m by (rule LeastI)
  have below: "\<forall>j < k. \<not> usable d (candidate first_table j)"
  proof (intro allI impI)
    fix j assume "j < k"
    then show "\<not> usable d (candidate first_table j)"
      unfolding k_def by (rule not_less_Least)
  qed
  from candidates_below_card [OF assms below] k below show ?thesis by blast
qed


lemma create_table_db:
  "db (create_table self) =
     (case db self (table self) of
        None \<Rightarrow> (db self)(table self \<mapsto> \<lparr>columns = created_columns, rows = []\<rparr>)
      | Some t \<Rightarrow> db self)"
  by (cases "db self (table self)") (simp_all add: create_table_def execute_def Let_def)

lemma create_table_table: "table (create_table self) = table self"
  by (cases "db self (table self)") (simp_all add: create_table_def execute_def Let_def)

lemma create_table_others: "name \<noteq> table self \<Longrightarrow> db (create_table self) name = db self name"
  by (cases "db self (table self)") (simp_all add: create_table_db)

lemma init_db_result:
  assumes "finite (dom (db self))"
  shows "\<exists>k self'. init_db self = Some (Inr (create_table self'))
            \<and> table self' = candidate (table self) k \<and> db self' = db self
            \<and> usable (db self) (candidate (table self) k)
            \<and> (\<forall>j < k. \<not> usable (db self) (candidate (table self) j))
            \<and> k \<le> card (dom (db self))"
proof -
  from first_usable_exists [OF assms, of "table self"] obtain k where
    k: "usable (db self) (candidate (table self) k)"
       "\<forall>j < k. \<not> usable (db self) (candidate (table self) j)"
       "k \<le> card (dom (db self))" by blast
  have "\<exists>self'. init_loop self (table self) 0 = Some (Inr self')
            \<and> table self' = candidate (table self) k \<and> db self' = db self"
  proof (rule init_loop_reaches)
    show "usable (db self) (candidate (table self) k)" by (rule k(1))
    show "\<forall>j. 0 \<le> j \<and> j < k \<longrightarrow> \<not> usable (db self) (candidate (table self) j)"
      using k(2) by simp
    show "0 \<le> k" by simp
    show "table self = candidate (table self) 0" by (simp add: candidate_def)
    show "db self = db self" ..
  qed
  then obtain self' where s': "init_loop self (table self) 0 = Some (Inr self')"
    "table self' = candidate (table self) k" "db self' = db self" by blast
  from s'(1) have "init_db self = Some (Inr (create_table self'))"
    by (simp add: init_db_def)
  with s'(2,3) k show ?thesis by blast
qed

lemma dom_drifted_db: "dom (drifted_db first_table n) = candidate first_table ` {..n}"
  by (auto simp: drifted_db_def dom_def)

lemma finite_dom_drifted_db: "finite (dom (drifted_db first_table n))"
  by (simp add: dom_drifted_db)

lemma usable_drifted_db:
  "usable (drifted_db first_table n) (candidate first_table j) \<longleftrightarrow> n < j"
proof -
  have "candidate first_table j \<in> candidate first_table ` {..n} \<longleftrightarrow> j \<in> {..n}"
    using inj_candidate by (rule inj_image_mem_iff)
  then show ?thesis
    by (auto simp: usable_def drifted_db_def drifted_table_def types_dict_def)
qed

lemma drifted_store_simps:
  "table (drifted_store first_table n) = first_table"
  "db (drifted_store first_table n) = drifted_db first_table n"
  by (simp_all add: drifted_store_def)

lemma usable_drifted_db_first:
  "\<not> usable (drifted_db first_table n) first_table"
  using usable_drifted_db [of first_table n 0] by (simp add: candidate_def)

lemma usable_drifted_db_suffix:
  "0 < j \<Longrightarrow> usable (drifted_db first_table n) (first_table @ ''_'' @ str_nat j) \<longleftrightarrow> n < j"
  using usable_drifted_db [of first_table n j] by (simp add: candidate_def)

lemma str_nat_2: "str_nat 2 = ''2''"
  by code_simp

lemma str_nat_1001: "str_nat 1001 = ''1001''"
  by code_simp

subsection \<open>A drifted table is left alone and a suffixed name is chosen\<close>

text \<open>
  Claim C2: when the database holds finitely many tables and the table of the requested
  name \<open>T\<close> exists with other column names or declared types than expected, \<open>_init_db\<close>
  returns with the store bound to \<open>T_k\<close> for the least \<open>k > 0\<close> such that \<open>T_k\<close> is
  unused or of exactly the expected shape; a table of that name exists afterwards, the
  table \<open>T\<close> is as it was, and so is every table other than the one bound.
\<close>

theorem drifted_table_renamed:
  assumes "finite (dom (db self))" and "\<not> usable (db self) (table self)"
  shows "\<exists>k self'. init_db self = Some (Inr self')
            \<and> 0 < k \<and> table self' = table self @ ''_'' @ str_nat k
            \<and> usable (db self) (table self')
            \<and> (\<forall>j. 0 < j \<and> j < k \<longrightarrow> \<not> usable (db self) (table self @ ''_'' @ str_nat j))
            \<and> db self' (table self') \<noteq> None
            \<and> db self' (table self) = db self (table self)
            \<and> (\<forall>name. name \<noteq> table self' \<longrightarrow> db self' name = db self name)"
proof -
  from init_db_result [OF assms(1)] obtain k s where
    res: "init_db self = Some (Inr (create_table s))"
    and tab: "table s = candidate (table self) k"
    and dbs: "db s = db self"
    and ok: "usable (db self) (candidate (table self) k)"
    and below: "\<forall>j < k. \<not> usable (db self) (candidate (table self) j)" by blast
  have k: "0 < k"
  proof (rule ccontr)
    assume "\<not> 0 < k"
    then have "k = 0" by simp
    with ok assms(2) show False by (simp add: candidate_def)
  qed
  then have name: "table s = table self @ ''_'' @ str_nat k"
    using tab by (simp add: candidate_def)
  have differs: "table self \<noteq> table s"
  proof
    assume "table self = table s"
    then have "candidate (table self) 0 = candidate (table self) k"
      using tab by (simp add: candidate_def)
    then have "0 = k" by (rule candidate_inj)
    with k show False by simp
  qed
  have below': "\<forall>j. 0 < j \<and> j < k \<longrightarrow> \<not> usable (db self) (table self @ ''_'' @ str_nat j)"
  proof (intro allI impI)
    fix j assume j: "0 < j \<and> j < k"
    with below have "\<not> usable (db self) (candidate (table self) j)" by blast
    with j show "\<not> usable (db self) (table self @ ''_'' @ str_nat j)"
      by (simp add: candidate_def)
  qed
  have bound: "db (create_table s) (table (create_table s)) \<noteq> None"
    by (cases "db s (table s)") (simp_all add: create_table_db create_table_table)
  have others: "\<forall>name. name \<noteq> table (create_table s) \<longrightarrow> db (create_table s) name = db self name"
    using create_table_others [of _ s] dbs by (simp add: create_table_table)
  have same: "db (create_table s) (table self) = db self (table self)"
    using create_table_others [OF differs] dbs by simp
  show ?thesis
    using res k name ok tab below' bound others same
    by (intro exI [of _ k] exI [of _ "create_table s"]) (simp add: create_table_table)
qed

theorem drifted_table_renamed_witness:
  "\<exists>self'. init_db (drifted_store ''tasks'' 1) = Some (Inr self')
      \<and> table self' = ''tasks_2''
      \<and> db self' ''tasks'' = Some drifted_table
      \<and> db self' ''tasks_2'' \<noteq> None"
proof -
  let ?s = "drifted_store ''tasks'' 1"
  have fin: "finite (dom (db ?s))"
    by (simp add: drifted_store_simps finite_dom_drifted_db)
  have bad: "\<not> usable (db ?s) (table ?s)"
    by (simp add: drifted_store_simps usable_drifted_db_first)
  from drifted_table_renamed [OF fin bad] obtain k self' where
    res: "init_db ?s = Some (Inr self')"
    and k: "0 < k"
    and tab: "table self' = table ?s @ ''_'' @ str_nat k"
    and ok: "usable (db ?s) (table self')"
    and below: "\<forall>j. 0 < j \<and> j < k \<longrightarrow> \<not> usable (db ?s) (table ?s @ ''_'' @ str_nat j)"
    and bound: "db self' (table self') \<noteq> None"
    and same: "db self' (table ?s) = db ?s (table ?s)" by blast
  have tab': "table self' = candidate ''tasks'' k"
    using tab k by (simp add: candidate_def drifted_store_simps)
  from ok have "usable (drifted_db ''tasks'' 1) (candidate ''tasks'' k)"
    unfolding tab' drifted_store_simps .
  then have "1 < k" unfolding usable_drifted_db .
  moreover have "\<not> 2 < k"
  proof
    assume "2 < k"
    with below have "\<not> usable (db ?s) (table ?s @ ''_'' @ str_nat 2)" by simp
    moreover have "table ?s @ ''_'' @ str_nat 2 = candidate ''tasks'' 2"
      by (simp add: candidate_def drifted_store_simps)
    ultimately have "\<not> usable (drifted_db ''tasks'' 1) (candidate ''tasks'' 2)"
      unfolding drifted_store_simps by simp
    then show False unfolding usable_drifted_db by simp
  qed
  ultimately have "k = 2" by simp
  then have t2: "table self' = ''tasks_2''"
    using tab by (simp add: drifted_store_simps str_nat_2)
  have "db ?s (table ?s) = Some drifted_table"
    by (simp add: drifted_store_simps drifted_db_def candidate_def)
  with res t2 bound same show ?thesis
    by (simp add: drifted_store_simps)
qed

subsection \<open>The renaming loop has no cap\<close>

text \<open>
  Claim C3 says that the number of names tried is capped and that the store fails once
  all names up to the cap are incompatible. The loop \<open>while not self._check_table()\<close>
  has no counter test and no failure exit: for every proposed cap there is a database
  whose names up to the cap are all incompatible and on which \<open>_init_db\<close> does not fail.
\<close>

theorem rename_loop_unbounded:
  "\<not> (\<exists>cap. \<forall>self. finite (dom (db self)) \<longrightarrow>
          (\<forall>j \<le> cap. \<not> usable (db self) (candidate (table self) j)) \<longrightarrow>
          (\<exists>e. init_db self = Some (Inl e)))"
proof
  assume "\<exists>cap. \<forall>self. finite (dom (db self)) \<longrightarrow>
          (\<forall>j \<le> cap. \<not> usable (db self) (candidate (table self) j)) \<longrightarrow>
          (\<exists>e. init_db self = Some (Inl e))"
  then obtain cap where cap: "\<forall>self. finite (dom (db self)) \<longrightarrow>
          (\<forall>j \<le> cap. \<not> usable (db self) (candidate (table self) j)) \<longrightarrow>
          (\<exists>e. init_db self = Some (Inl e))" ..
  let ?s = "drifted_store ''tasks'' cap"
  have fin: "finite (dom (db ?s))"
    by (simp add: drifted_store_simps finite_dom_drifted_db)
  have "\<forall>j \<le> cap. \<not> usable (db ?s) (candidate (table ?s) j)"
    by (simp add: drifted_store_simps usable_drifted_db)
  with cap fin obtain e where "init_db ?s = Some (Inl e)" by blast
  moreover from init_db_result [OF fin] obtain s' where "init_db ?s = Some (Inr s')" by blast
  ultimately show False by simp
qed

text \<open>
  Claim C3, amended: the loop is not capped but it ends, because a database holds
  finitely many tables: \<open>_init_db\<close> returns without error, bound to the first usable
  candidate \<open>k\<close>, and \<open>k\<close> is at most the number of tables in the database.
\<close>

theorem rename_loop_terminates:
  assumes "finite (dom (db self))"
  shows "\<exists>k self'. init_db self = Some (Inr self')
            \<and> k \<le> card (dom (db self))
            \<and> table self' = candidate (table self) k
            \<and> usable (db self) (table self')
            \<and> (\<forall>j < k. \<not> usable (db self) (candidate (table self) j))"
proof -
  from init_db_result [OF assms] obtain k s where
    res: "init_db self = Some (Inr (create_table s))"
    and tab: "table s = candidate (table self) k"
    and ok: "usable (db self) (candidate (table self) k)"
    and below: "\<forall>j < k. \<not> usable (db self) (candidate (table self) j)"
    and card: "k \<le> card (dom (db self))" by blast
  show ?thesis
    using res tab ok below card
    by (intro exI [of _ k] exI [of _ "create_table s"]) (simp add: create_table_table)
qed

theorem rename_loop_terminates_witness:
  "\<exists>k self'. init_db (drifted_store ''tasks'' 1000) = Some (Inr self')
      \<and> k \<le> card (dom (db (drifted_store ''tasks'' 1000)))
      \<and> table self' = ''tasks_1001''"
proof -
  let ?s = "drifted_store ''tasks'' 1000"
  have fin: "finite (dom (db ?s))"
    by (simp add: drifted_store_simps finite_dom_drifted_db)
  from rename_loop_terminates [OF fin] obtain k self' where
    res: "init_db ?s = Some (Inr self')"
    and card: "k \<le> card (dom (db ?s))"
    and tab: "table self' = candidate (table ?s) k"
    and ok: "usable (db ?s) (table self')"
    and below: "\<forall>j < k. \<not> usable (db ?s) (candidate (table ?s) j)" by blast
  from ok have "usable (drifted_db ''tasks'' 1000) (candidate ''tasks'' k)"
    unfolding tab drifted_store_simps .
  then have "1000 < k" unfolding usable_drifted_db .
  moreover have "\<not> 1001 < k"
  proof
    assume "1001 < k"
    with below have "\<not> usable (db ?s) (candidate (table ?s) 1001)" by blast
    then have "\<not> usable (drifted_db ''tasks'' 1000) (candidate ''tasks'' 1001)"
      unfolding drifted_store_simps .
    then show False unfolding usable_drifted_db by simp
  qed
  ultimately have "k = 1001" by simp
  then have "table self' = ''tasks_1001''"
    using tab by (simp add: drifted_store_simps candidate_def str_nat_1001)
  with res card show ?thesis by blast
qed

subsection \<open>The order of \<open>get_history\<close>\<close>

text \<open>
  \<open>get_history\<close> returns the identifiers of all rows of the bound table, in ascending
  order of the stored \<open>submitted\<close> cells as the engine orders stored values.
\<close>

lemma get_history_sorted:
  assumes "db self (table self) = Some t" and "column_names t = keys_list"
  shows "\<exists>rs. fst (get_history self) = Inr (map (cell t ''msg_id'') rs)
           \<and> set rs = set (rows t) \<and> length rs = length (rows t)
           \<and> sorted (map (\<lambda>r. order_key (cell t ''submitted'' r)) rs)"
proof -
  have "fst (get_history self) =
          Inr (map (cell t ''msg_id'') (sort_key (\<lambda>r. order_key (cell t ''submitted'' r)) (rows t)))"
    using assms by (simp add: get_history_def execute_def Let_def keys_list_def)
  then show ?thesis
    by (intro exI [of _ "sort_key (\<lambda>r. order_key (cell t ''submitted'' r)) (rows t)"]) simp
qed

text \<open>
  Claim C8 says that the identifiers come in ascending order of the submission
  timestamps. When a statement is executed with a \<open>datetime\<close> parameter, the driver
  binds what \<open>_adapt_timestamp\<close> returns: the ISO-8601 text of the timestamp, with the
  UTC offset of the object as it is. \<open>ORDER by submitted ASC\<close> compares these texts.
  Record \<open>a\<close> is submitted at 10:00 at UTC+5, which is 05:00 UTC, and record \<open>b\<close>
  at 06:00 UTC on the same day: \<open>a\<close> is the earlier one, both inserts succeed, and
  \<open>get_history\<close> returns \<open>b\<close> before \<open>a\<close>.
\<close>

theorem history_mixed_offsets:
  "utc_microseconds stamp_a < utc_microseconds stamp_b
   \<and> fst (add_record (example_store []) ''a''
             [(''submitted'', SText (adapt_timestamp 0 stamp_a))]) = Inr ()
   \<and> fst (add_record
            (snd (add_record (example_store []) ''a''
                    [(''submitted'', SText (adapt_timestamp 0 stamp_a))]))
            ''b'' [(''submitted'', SText (adapt_timestamp 0 stamp_b))]) = Inr ()
   \<and> fst (get_history
            (snd (add_record
                    (snd (add_record (example_store []) ''a''
                            [(''submitted'', SText (adapt_timestamp 0 stamp_a))]))
                    ''b'' [(''submitted'', SText (adapt_timestamp 0 stamp_b))]))) =
       Inr [SText ''b'', SText ''a'']"
  by code_simp

end
